theory Spec2Isabelle
  imports
    Main
    "HOL-Library.Multiset"
    "HOL-Library.List_Lexorder"
    "HOL-Library.Product_Lexorder"
begin

section \<open>ITU OBS course-schedule puller: a shallow embedding of \<^verbatim>\<open>itu_obs_pull.py\<close>\<close>

subsection \<open>Python strings\<close>

text \<open>
  A Python \<^verbatim>\<open>str\<close> is a sequence of Unicode code points, so it is modelled as a list of
  naturals (one per code point), not as a list of bytes. Python compares strings
  lexicographically by code point, a proper prefix being smaller; that is the order
  \<^theory_text>\<open>List_Lexorder\<close> puts on \<^typ>\<open>nat list\<close>. Python compares tuples
  lexicographically, which is the order of \<^theory_text>\<open>Product_Lexorder\<close>.
\<close>

type_synonym pystr = "nat list"

definition ascii :: "string \<Rightarrow> pystr" where
  "ascii cs = map of_char cs"

text \<open>
  \<^verbatim>\<open>str.strip()\<close> without argument removes the characters for which CPython's
  \<^verbatim>\<open>Py_UNICODE_ISSPACE\<close> holds: U+0009..U+000D, U+001C..U+0020, U+0085, U+00A0,
  U+1680, U+2000..U+200A, U+2028, U+2029, U+202F, U+205F, U+3000.
\<close>

definition isspace :: "nat \<Rightarrow> bool" where
  "isspace c \<longleftrightarrow>
     (9 \<le> c \<and> c \<le> 13) \<or> (28 \<le> c \<and> c \<le> 32) \<or> c = 133 \<or> c = 160 \<or> c = 5760 \<or>
     (8192 \<le> c \<and> c \<le> 8202) \<or> c = 8232 \<or> c = 8233 \<or> c = 8239 \<or> c = 8287 \<or> c = 12288"

definition strip :: "pystr \<Rightarrow> pystr" where
  "strip s = rev (dropWhile isspace (rev (dropWhile isspace s)))"

text \<open>\<^verbatim>\<open>s.replace("\n", " / ")\<close>: every line feed (U+000A) becomes space, slash, space.\<close>

definition replace_newline :: "pystr \<Rightarrow> pystr" where
  "replace_newline s = concat (map (\<lambda>c. if c = 10 then [32, 47, 32] else [c]) s)"

text \<open>\<^verbatim>\<open>def clean_text(text): return text.strip().replace("\n", " / ")\<close>\<close>

definition clean_text :: "pystr \<Rightarrow> pystr" where
  "clean_text text = replace_newline (strip text)"

subsection \<open>Records built from table rows\<close>

text \<open>
  A result row is a Python dict with eleven fixed string keys, built by one dict display.
  The keys are modelled by a datatype, one constructor per key in the order of the CSV
  header (the Turkish letters of the key names written in ASCII), and the dict by an
  association list in insertion order.
\<close>

datatype field =
  Kod | Ders | Ogretim_Yontemi | Egitmen | Gun | Saat | Bina | Kayitli | Kontenjan
  | Bolum_Sinirlamasi | CRN

type_synonym entry = "(field \<times> pystr) list"

text \<open>\<^verbatim>\<open>e.get(key, default)\<close>\<close>

definition dict_get :: "entry \<Rightarrow> field \<Rightarrow> pystr \<Rightarrow> pystr" where
  "dict_get e k d = (case map_of e k of Some v \<Rightarrow> v | None \<Rightarrow> d)"

text \<open>The two raw delivery modes the source knows, and their short labels.\<close>

definition fiziksel_raw :: pystr where
  "fiziksel_raw = ascii ''Fiziksel (Y'' @ [252] @ ascii ''z y'' @ [252] @ ascii ''ze)''"

definition sanal_raw :: pystr where
  "sanal_raw = ascii ''Sanal ('' @ [199] @ ascii ''evrimi'' @ [231] @ ascii ''i/Online)''"

text \<open>
  Lines 99-117, for a row that has at least 14 cells: \<open>cells\<close> holds the text of each
  \<^verbatim>\<open>td\<close> of the row.
\<close>

definition make_entry :: "pystr list \<Rightarrow> entry" where
  "make_entry cells =
     (let ogretim_yontemi = clean_text (cells ! 3);
          ogretim_yontemi =
            (if ogretim_yontemi = fiziksel_raw then ascii ''Fiziksel''
             else if ogretim_yontemi = sanal_raw then ascii ''Online''
             else ogretim_yontemi)
      in [(Kod, clean_text (cells ! 1)),
          (Ders, clean_text (cells ! 2)),
          (Ogretim_Yontemi, ogretim_yontemi),
          (Egitmen, clean_text (cells ! 4)),
          (Gun, clean_text (cells ! 6)),
          (Saat, clean_text (cells ! 7)),
          (Bina, clean_text (cells ! 5) @ ascii '' / '' @ clean_text (cells ! 8)),
          (Kayitli, clean_text (cells ! 10)),
          (Kontenjan, clean_text (cells ! 9)),
          (Bolum_Sinirlamasi, clean_text (cells ! 12)),
          (CRN, clean_text (cells ! 0))])"

text \<open>
  The loop over \<^verbatim>\<open>rows[1:]\<close> (lines 91-123) with its two \<^verbatim>\<open>continue\<close>s; \<open>entries\<close>
  is the list being appended to. \<^verbatim>\<open>ders_entry["Kod"]\<close> reads a key the dict display has
  just set (see \<open>make_entry_Kod\<close> below), so the subscript cannot raise.
\<close>

fun rows_loop :: "pystr list \<Rightarrow> pystr list list \<Rightarrow> entry list \<Rightarrow> entry list" where
  "rows_loop excluded_codes [] entries = entries"
| "rows_loop excluded_codes (cells # rows) entries =
     (if length cells < 14 then rows_loop excluded_codes rows entries
      else
        let ders_entry = make_entry cells;
            ders_full_kod = the (map_of ders_entry Kod)
        in if ders_full_kod \<in> set excluded_codes then rows_loop excluded_codes rows entries
           else rows_loop excluded_codes rows (entries @ [ders_entry]))"

subsection \<open>The page session\<close>

text \<open>
  The browser is external. A session is a state of some type \<open>'s\<close> and the capabilities
  the source calls on it; each call returns normally or raises, and moves the state.
  The source distinguishes \<^verbatim>\<open>StaleElementReferenceException\<close> from every other
  \<^verbatim>\<open>Exception\<close>. One capability stands for the calls the source makes inside one
  \<^verbatim>\<open>try\<close> block whose handler treats them alike:
  \<^item> \<open>op_create\<close>: \<^verbatim>\<open>create_driver()\<close>;
  \<^item> \<open>op_get\<close>: \<^verbatim>\<open>driver.get(site_url)\<close>;
  \<^item> \<open>op_set_level\<close>: waiting for \<^verbatim>\<open>programSeviyeTipiId\<close> and the two
    \<^verbatim>\<open>execute_script\<close> calls that set it to \<^verbatim>\<open>LS\<close>;
  \<^item> \<open>op_select\<close>: one attempt to find \<^verbatim>\<open>dersBransKoduId\<close> and select a visible text;
  \<^item> \<open>op_click\<close>: one attempt to find \<^verbatim>\<open>button.btn-primary\<close> and click it;
  \<^item> \<open>op_read_table\<close>: one attempt to find the table, its \<^verbatim>\<open>tr\<close> rows, the \<^verbatim>\<open>td\<close>
    cells of each row and their texts (all rows, the header row first);
  \<^item> \<open>op_quit\<close>: \<^verbatim>\<open>driver.quit()\<close>.
  \<^verbatim>\<open>time.sleep\<close> and \<^verbatim>\<open>print\<close> are left out.
\<close>

datatype exn = StaleElementReferenceException | OtherException

record 's page =
  op_create :: "'s \<Rightarrow> (exn + unit) \<times> 's"
  op_get :: "'s \<Rightarrow> (exn + unit) \<times> 's"
  op_set_level :: "'s \<Rightarrow> (exn + unit) \<times> 's"
  op_select :: "pystr \<Rightarrow> 's \<Rightarrow> (exn + unit) \<times> 's"
  op_click :: "'s \<Rightarrow> (exn + unit) \<times> 's"
  op_read_table :: "'s \<Rightarrow> (exn + pystr list list) \<times> 's"
  op_quit :: "'s \<Rightarrow> (exn + unit) \<times> 's"

text \<open>
  The state of one worker: the session, and the log of the calls made on it so far with
  what each of them gave (kept only to state which calls a run makes; no decision of the
  program reads it).
\<close>

datatype call = CreateDriver | Get | SetLevel | SelectCode pystr | ClickShow | ReadTable | Quit

datatype outcome = Raised exn | Done | Table "pystr list list"

record 's world =
  sess :: 's
  trace :: "(call \<times> outcome) list"

definition invoke ::
  "call \<Rightarrow> ('a \<Rightarrow> outcome) \<Rightarrow> ('s \<Rightarrow> (exn + 'a) \<times> 's) \<Rightarrow> 's world
     \<Rightarrow> (exn + 'a) \<times> 's world" where
  "invoke c out f w =
     (case f (sess w) of
        (r, s') \<Rightarrow>
          (r, \<lparr>sess = s',
               trace = trace w @ [(c, case r of Inl e \<Rightarrow> Raised e | Inr v \<Rightarrow> out v)]\<rparr>))"

definition select_attempt :: "'s page \<Rightarrow> pystr \<Rightarrow> 's world \<Rightarrow> (exn + unit) \<times> 's world" where
  "select_attempt P ders_kodu = invoke (SelectCode ders_kodu) (\<lambda>u. Done) (op_select P ders_kodu)"

definition click_attempt :: "'s page \<Rightarrow> 's world \<Rightarrow> (exn + unit) \<times> 's world" where
  "click_attempt P = invoke ClickShow (\<lambda>u. Done) (op_click P)"

definition read_attempt :: "'s page \<Rightarrow> 's world \<Rightarrow> (exn + pystr list list) \<times> 's world" where
  "read_attempt P = invoke ReadTable Table (op_read_table P)"

subsection \<open>Per-item phases\<close>

text \<open>
  \<^verbatim>\<open>select_course_code(driver, wait, ders_kodu, retries=3)\<close>, lines 59-76: the
  \<^verbatim>\<open>for _ in range(retries)\<close> loop is a recursion on the attempts left.
\<close>

fun select_course_code ::
  "'s page \<Rightarrow> pystr \<Rightarrow> nat \<Rightarrow> 's world \<Rightarrow> (exn + bool) \<times> 's world" where
  "select_course_code P ders_kodu 0 w = (Inr False, w)"
| "select_course_code P ders_kodu (Suc retries) w =
     (case select_attempt P ders_kodu w of
        (Inr u, w') \<Rightarrow> (Inr True, w')
      | (Inl StaleElementReferenceException, w') \<Rightarrow> select_course_code P ders_kodu retries w'
      | (Inl OtherException, w') \<Rightarrow> (Inl OtherException, w'))"

text \<open>
  The \<^verbatim>\<open>for _ in range(3)\<close> loop around the click, lines 194-205: \<open>True\<close> for
  \<^verbatim>\<open>break\<close>, \<open>False\<close> for the \<^verbatim>\<open>else\<close> branch of the loop.
\<close>

fun click_show :: "'s page \<Rightarrow> nat \<Rightarrow> 's world \<Rightarrow> (exn + bool) \<times> 's world" where
  "click_show P 0 w = (Inr False, w)"
| "click_show P (Suc n) w =
     (case click_attempt P w of
        (Inr u, w') \<Rightarrow> (Inr True, w')
      | (Inl StaleElementReferenceException, w') \<Rightarrow> click_show P n w'
      | (Inl OtherException, w') \<Rightarrow> (Inl OtherException, w'))"

text \<open>
  \<^verbatim>\<open>collect_course_entries(driver, wait, ders_kodu, retries=3)\<close>, lines 79-128. A stale
  element anywhere in an attempt discards the attempt's partial list and starts the whole
  read again.
\<close>

fun collect_course_entries ::
  "'s page \<Rightarrow> pystr list \<Rightarrow> pystr \<Rightarrow> nat \<Rightarrow> 's world \<Rightarrow> (exn + entry list) \<times> 's world" where
  "collect_course_entries P excluded_codes ders_kodu 0 w = (Inr [], w)"
| "collect_course_entries P excluded_codes ders_kodu (Suc retries) w =
     (case read_attempt P w of
        (Inr rows, w') \<Rightarrow> (Inr (rows_loop excluded_codes (drop 1 rows) []), w')
      | (Inl StaleElementReferenceException, w') \<Rightarrow>
          collect_course_entries P excluded_codes ders_kodu retries w'
      | (Inl OtherException, w') \<Rightarrow> (Inl OtherException, w'))"

subsection \<open>The worker\<close>

text \<open>
  The body of \<^verbatim>\<open>for ders_kodu in chunk\<close>, lines 184-217, on the pair of the list
  \<open>entries\<close> accumulated so far and the state. Every \<^verbatim>\<open>Exception\<close> raised inside is
  caught by the handler of line 215, which goes on with the next code.
\<close>

definition scrape_item ::
  "'s page \<Rightarrow> pystr list \<Rightarrow> pystr \<Rightarrow> entry list \<times> 's world \<Rightarrow> entry list \<times> 's world" where
  "scrape_item P excluded_codes ders_kodu acc =
     (case acc of (entries, w) \<Rightarrow>
        (case select_course_code P ders_kodu 3 w of
           (Inl e, w1) \<Rightarrow> (entries, w1)
         | (Inr False, w1) \<Rightarrow> (entries, w1)
         | (Inr True, w1) \<Rightarrow>
             (case click_show P 3 w1 of
                (Inl e, w2) \<Rightarrow> (entries, w2)
              | (Inr False, w2) \<Rightarrow> (entries, w2)
              | (Inr True, w2) \<Rightarrow>
                  (case collect_course_entries P excluded_codes ders_kodu 3 w2 of
                     (Inl e, w3) \<Rightarrow> (entries, w3)
                   | (Inr ders_entries, w3) \<Rightarrow>
                       (if ders_entries = [] then (entries, w3)
                        else (entries @ ders_entries, w3))))))"

text \<open>
  \<^verbatim>\<open>scrape_chunk(chunk)\<close>, lines 162-221. \<^verbatim>\<open>create_driver()\<close> is called before the
  \<^verbatim>\<open>try\<close>; the set-up and the loop are the body of a \<^verbatim>\<open>try\<close> that has a
  \<^verbatim>\<open>finally: driver.quit()\<close> and no \<^verbatim>\<open>except\<close>; an exception raised by
  \<^verbatim>\<open>driver.quit()\<close> itself replaces the outcome of the body.
\<close>

definition scrape_setup :: "'s page \<Rightarrow> 's world \<Rightarrow> (exn + unit) \<times> 's world" where
  "scrape_setup P w =
     (case invoke Get (\<lambda>u. Done) (op_get P) w of
        (Inl e, w1) \<Rightarrow> (Inl e, w1)
      | (Inr u, w1) \<Rightarrow> invoke SetLevel (\<lambda>u. Done) (op_set_level P) w1)"

definition scrape_body ::
  "'s page \<Rightarrow> pystr list \<Rightarrow> pystr list \<Rightarrow> 's world \<Rightarrow> (exn + entry list) \<times> 's world" where
  "scrape_body P excluded_codes chunk w =
     (case scrape_setup P w of
        (Inl e, w1) \<Rightarrow> (Inl e, w1)
      | (Inr u, w1) \<Rightarrow>
          (case fold (scrape_item P excluded_codes) chunk ([], w1) of
             (entries, w2) \<Rightarrow> (Inr entries, w2)))"

definition scrape_chunk ::
  "'s page \<Rightarrow> pystr list \<Rightarrow> pystr list \<Rightarrow> 's world \<Rightarrow> (exn + entry list) \<times> 's world" where
  "scrape_chunk P excluded_codes chunk w =
     (if chunk = [] then (Inr [], w)
      else
        (case invoke CreateDriver (\<lambda>u. Done) (op_create P) w of
           (Inl e, w0) \<Rightarrow> (Inl e, w0)
         | (Inr u, w0) \<Rightarrow>
             (case scrape_body P excluded_codes chunk w0 of
                (r, w2) \<Rightarrow>
                  (case invoke Quit (\<lambda>u. Done) (op_quit P) w2 of
                     (Inl e, w3) \<Rightarrow> (Inl e, w3)
                   | (Inr u, w3) \<Rightarrow> (r, w3)))))"

subsection \<open>The orchestrator\<close>

text \<open>
  Lines 239-242. \<open>chunk_append\<close> is one iteration of
  \<^verbatim>\<open>for idx, kod in enumerate(ders_kodlari): chunks[idx % worker_count].append(kod)\<close>.
  The source reaches these lines only with a non-empty list and \<^verbatim>\<open>WORKER_COUNT\<close> above 1,
  where \<open>worker_count\<close> is positive and the index is in range.
\<close>

definition chunk_append :: "nat \<Rightarrow> nat \<times> 'a \<Rightarrow> 'a list list \<Rightarrow> 'a list list" where
  "chunk_append worker_count p chunks =
     (case p of (idx, kod) \<Rightarrow>
        chunks[idx mod worker_count := chunks ! (idx mod worker_count) @ [kod]])"

definition make_chunks :: "int \<Rightarrow> 'a list \<Rightarrow> 'a list list" where
  "make_chunks WORKER_COUNT ders_kodlari =
     (let worker_count = nat (min WORKER_COUNT (int (length ders_kodlari)))
      in fold (chunk_append worker_count) (enumerate 0 ders_kodlari)
           (replicate worker_count []))"

text \<open>
  Lines 250-255: a future is submitted for every non-empty chunk; \<open>submitted\<close> lists
  their indices.
\<close>

definition submitted :: "'a list list \<Rightarrow> nat list" where
  "submitted chunks = filter (\<lambda>i. chunks ! i \<noteq> []) [0..<length chunks]"

text \<open>
  Lines 256-266: the results of the futures in the order \<^verbatim>\<open>as_completed\<close> yields them;
  a future that raised adds nothing.
\<close>

definition collect_futures :: "(exn + entry list) list \<Rightarrow> entry list" where
  "collect_futures results =
     fold (\<lambda>r all_entries. case r of Inr result \<Rightarrow> all_entries @ result | Inl e \<Rightarrow> all_entries)
       results []"

text \<open>
  Lines 269-271: \<^verbatim>\<open>all_entries.sort(key=lambda e: (e.get("Kod", ""), e.get("CRN", "")))\<close>
  when the list is not empty. Python's sort is stable, and so is \<^const>\<open>sort_key\<close>; a
  stable sort by a key has one result only.
\<close>

definition sort_keyfn :: "entry \<Rightarrow> pystr \<times> pystr" where
  "sort_keyfn e = (dict_get e Kod [], dict_get e CRN [])"

definition sort_entries :: "entry list \<Rightarrow> entry list" where
  "sort_entries all_entries =
     (if all_entries = [] then [] else sort_key sort_keyfn all_entries)"

text \<open>
  \<^verbatim>\<open>main()\<close> from the discovered codes on, up to the rows handed to the CSV writer (the
  empty list when nothing is written). Every worker drives a session of its own:
  \<open>init i\<close> is the state worker \<open>i\<close> starts from, and \<open>order\<close> the order in which
  \<^verbatim>\<open>as_completed\<close> yields the submitted futures, a permutation of
  \<^const>\<open>submitted\<close>. With one worker an exception of \<^verbatim>\<open>scrape_chunk\<close> leaves
  \<^verbatim>\<open>main\<close>.
\<close>

definition main_rows ::
  "'s page \<Rightarrow> pystr list \<Rightarrow> int \<Rightarrow> pystr list \<Rightarrow> (nat \<Rightarrow> 's world) \<Rightarrow> nat list
     \<Rightarrow> exn + entry list" where
  "main_rows P excluded_codes WORKER_COUNT ders_kodlari init order =
     (if ders_kodlari = [] then Inr (sort_entries [])
      else if WORKER_COUNT \<le> 1 then
        (case fst (scrape_chunk P excluded_codes ders_kodlari (init 0)) of
           Inl e \<Rightarrow> Inl e
         | Inr all_entries \<Rightarrow> Inr (sort_entries all_entries))
      else
        let chunks = make_chunks WORKER_COUNT ders_kodlari;
            results = map (\<lambda>i. fst (scrape_chunk P excluded_codes (chunks ! i) (init i))) order
        in Inr (sort_entries (collect_futures results)))"

subsection \<open>Vocabulary of the statements\<close>

text \<open>A data row is kept when it has at least 14 cells and its normalised code is not excluded.\<close>

definition kept :: "pystr list \<Rightarrow> pystr list \<Rightarrow> bool" where
  "kept excluded_codes cells \<longleftrightarrow>
     14 \<le> length cells \<and> clean_text (cells ! 1) \<notin> set excluded_codes"

text \<open>One record for every kept row below the header row of a table, in the table's order.\<close>

definition table_entries :: "pystr list \<Rightarrow> pystr list list \<Rightarrow> entry list" where
  "table_entries excluded_codes rows =
     map make_entry (filter (kept excluded_codes) (drop 1 rows))"

text \<open>
  \<open>stale_run j attempt w\<close>: the first \<open>j\<close> attempts made from \<open>w\<close> all raise
  \<^verbatim>\<open>StaleElementReferenceException\<close>; the result is the state they leave.
\<close>

fun stale_run :: "nat \<Rightarrow> ('w \<Rightarrow> (exn + 'a) \<times> 'w) \<Rightarrow> 'w \<Rightarrow> 'w option" where
  "stale_run 0 attempt w = Some w"
| "stale_run (Suc j) attempt w =
     (case attempt w of
        (Inl StaleElementReferenceException, w') \<Rightarrow> stale_run j attempt w'
      | (Inl OtherException, w') \<Rightarrow> None
      | (Inr v, w') \<Rightarrow> None)"

text \<open>The tables a log says were read, and how often it says the session was quit.\<close>

fun tables_read :: "(call \<times> outcome) list \<Rightarrow> pystr list list list" where
  "tables_read [] = []"
| "tables_read ((c, Table rows) # tr) = rows # tables_read tr"
| "tables_read ((c, Done) # tr) = tables_read tr"
| "tables_read ((c, Raised e) # tr) = tables_read tr"

definition quits :: "(call \<times> outcome) list \<Rightarrow> nat" where
  "quits tr = length (filter (\<lambda>ev. fst ev = Quit) tr)"

text \<open>The batch a future contributes: its result, or nothing when it raised.\<close>

fun batch_of :: "exn + entry list \<Rightarrow> entry list" where
  "batch_of (Inr result) = result"
| "batch_of (Inl e) = []"

subsection \<open>A scripted session\<close>

text \<open>
  A session for concrete runs: it remembers the selected code, shows the table \<open>tbl\<close>
  gives for that code, and raises a staleness error on the next \<open>select_faults\<close>
  selections, \<open>click_faults\<close> clicks and \<open>read_faults\<close> table reads. With
  \<open>setup_ok\<close> false, loading the page fails.
\<close>

record fake =
  selected :: pystr
  select_faults :: nat
  click_faults :: nat
  read_faults :: nat

definition fake_page :: "(pystr \<Rightarrow> pystr list list) \<Rightarrow> bool \<Rightarrow> fake page" where
  "fake_page tbl setup_ok =
     \<lparr>op_create = (\<lambda>s. (Inr (), s)),
      op_get = (\<lambda>s. (if setup_ok then Inr () else Inl OtherException, s)),
      op_set_level = (\<lambda>s. (Inr (), s)),
      op_select = (\<lambda>k s.
        if select_faults s = 0 then (Inr (), s\<lparr>selected := k\<rparr>)
        else (Inl StaleElementReferenceException, s\<lparr>select_faults := select_faults s - 1\<rparr>)),
      op_click = (\<lambda>s.
        if click_faults s = 0 then (Inr (), s)
        else (Inl StaleElementReferenceException, s\<lparr>click_faults := click_faults s - 1\<rparr>)),
      op_read_table = (\<lambda>s.
        if read_faults s = 0 then (Inr (tbl (selected s)), s)
        else (Inl StaleElementReferenceException, s\<lparr>read_faults := read_faults s - 1\<rparr>)),
      op_quit = (\<lambda>s. (Inr (), s))\<rparr>"

definition fake_world ::
  "pystr \<Rightarrow> nat \<Rightarrow> nat \<Rightarrow> nat \<Rightarrow> (call \<times> outcome) list \<Rightarrow> fake world" where
  "fake_world sel a b c tr =
     \<lparr>sess = \<lparr>selected = sel, select_faults = a, click_faults = b, read_faults = c\<rparr>,
      trace = tr\<rparr>"

definition fresh :: "nat \<Rightarrow> nat \<Rightarrow> nat \<Rightarrow> fake world" where
  "fresh a b c = fake_world [] a b c []"

text \<open>A row of 14 cells with the given CRN, code, title and delivery mode, the rest empty.\<close>

definition sample_row :: "string \<Rightarrow> string \<Rightarrow> string \<Rightarrow> pystr \<Rightarrow> pystr list" where
  "sample_row crn kod ders mode = [ascii crn, ascii kod, ascii ders, mode] @ replicate 10 []"

definition akm_blg :: "pystr \<Rightarrow> pystr list list" where
  "akm_blg k =
     (if k = ascii ''AKM'' then
        [[], sample_row ''10'' ''AKM 101'' ''Statik'' [], [ascii ''bos''],
             sample_row ''11'' ''AKM 101'' ''Statik'' []]
      else if k = ascii ''BLG'' then [[], sample_row ''5'' ''BLG 102'' ''Programlama'' []]
      else [[]])"

text \<open>A fresh session on which the code AKM has been selected.\<close>

definition akm_selected :: "fake world" where
  "akm_selected = fake_world (ascii ''AKM'') 0 0 0 []"

subsection \<open>The three retry loops as one bounded retry\<close>

text \<open>
  The loops of \<^const>\<open>select_course_code\<close>, \<^const>\<open>click_show\<close> and
  \<^const>\<open>collect_course_entries\<close> have one shape: try at most \<open>n\<close> times, go on
  after a staleness error, stop at the first result or other exception. \<open>retry_stale\<close> is
  that shape, used to reason about the three of them at once (see the lemmas
  \<open>select_course_code_retry\<close>, \<open>click_show_retry\<close> and
  \<open>collect_course_entries_retry\<close>).
\<close>

fun retry_stale :: "nat \<Rightarrow> ('w \<Rightarrow> (exn + 'a) \<times> 'w) \<Rightarrow> 'w \<Rightarrow> (exn + 'a option) \<times> 'w" where
  "retry_stale 0 attempt w = (Inr None, w)"
| "retry_stale (Suc n) attempt w =
     (case attempt w of
        (Inr v, w') \<Rightarrow> (Inr (Some v), w')
      | (Inl StaleElementReferenceException, w') \<Rightarrow> retry_stale n attempt w'
      | (Inl OtherException, w') \<Rightarrow> (Inl OtherException, w'))"

text \<open>Records and tables for concrete runs.\<close>

definition crn_20 :: entry where
  "crn_20 = make_entry (sample_row ''20'' ''AKM 101'' ''Statik'' [])"

definition crn_100 :: entry where
  "crn_100 = make_entry (sample_row ''100'' ''AKM 101'' ''Statik'' [])"

definition ortak_a :: "pystr list" where
  "ortak_a = sample_row ''7'' ''ORT 100'' ''Ortak A'' []"

definition ortak_b :: "pystr list" where
  "ortak_b = sample_row ''7'' ''ORT 100'' ''Ortak B'' []"

definition same_key :: "pystr \<Rightarrow> pystr list list" where
  "same_key k = (if k = ascii ''AKM'' then [[], ortak_a] else [[], ortak_b])"

definition fresh_sessions :: "nat \<Rightarrow> fake world" where
  "fresh_sessions i = fresh 0 0 0"

text \<open>A table that shows the same row twice.\<close>

definition twice :: "pystr \<Rightarrow> pystr list list" where
  "twice k =
     [[], sample_row ''10'' ''AKM 101'' ''Statik'' [], sample_row ''10'' ''AKM 101'' ''Statik'' []]"

text \<open>The same session, except that \<^verbatim>\<open>driver.quit()\<close> raises.\<close>

definition quit_raises :: "'s page \<Rightarrow> 's page" where
  "quit_raises P = P\<lparr>op_quit := (\<lambda>s. (Inl OtherException, s))\<rparr>"

subsection \<open>Normalisation lemmas\<close>

lemma isspace_newline: "isspace 10"
  by (simp add: isspace_def)

lemma last_dropWhile_nonempty:
  "dropWhile P xs \<noteq> [] \<Longrightarrow> last (dropWhile P xs) = last xs"
  by (induction xs) (auto split: if_splits)

lemma strip_ends:
  "strip s = [] \<or> (\<not> isspace (hd (strip s)) \<and> \<not> isspace (last (strip s)))"
proof (cases "strip s = []")
  case True
  then show ?thesis by simp
next
  case False
  let ?a = "dropWhile isspace s"
  let ?b = "dropWhile isspace (rev ?a)"
  from False have b: "?b \<noteq> []" by (simp add: strip_def)
  have a: "?a \<noteq> []"
  proof
    assume e: "?a = []"
    have "?b = []" unfolding e by simp
    with b show False by simp
  qed
  have "last (strip s) = hd ?b" using b by (simp add: strip_def last_rev)
  moreover have "\<not> isspace (hd ?b)" using b by (rule hd_dropWhile)
  moreover have "hd (strip s) = last ?b" using b by (simp add: strip_def hd_rev)
  moreover have "last ?b = last (rev ?a)" using b by (rule last_dropWhile_nonempty)
  moreover have "last (rev ?a) = hd ?a" using a by (simp add: last_rev)
  moreover have "\<not> isspace (hd ?a)" using a by (rule hd_dropWhile)
  ultimately show ?thesis by simp
qed

lemma strip_fixed:
  assumes "s = [] \<or> (\<not> isspace (hd s) \<and> \<not> isspace (last s))"
  shows "strip s = s"
proof (cases s)
  case Nil
  then show ?thesis by (simp add: strip_def)
next
  case (Cons c cs)
  with assms have h: "\<not> isspace (hd s)" and l: "\<not> isspace (last s)" by auto
  from Cons h have "dropWhile isspace s = s" by simp
  moreover from Cons l have "dropWhile isspace (rev s) = rev s"
    by (simp only: dropWhile_eq_self_iff hd_rev) simp
  ultimately show ?thesis by (simp add: strip_def)
qed

lemma replace_newline_no_newline: "10 \<notin> set (replace_newline s)"
  by (induction s) (auto simp: replace_newline_def)

lemma replace_newline_fixed: "10 \<notin> set s \<Longrightarrow> replace_newline s = s"
  by (induction s) (auto simp: replace_newline_def)

lemma replace_newline_Nil_iff: "replace_newline s = [] \<longleftrightarrow> s = []"
  by (cases s) (auto simp: replace_newline_def)

lemma hd_replace_newline: "s \<noteq> [] \<Longrightarrow> hd s \<noteq> 10 \<Longrightarrow> hd (replace_newline s) = hd s"
  by (cases s) (auto simp: replace_newline_def)

lemma last_replace_newline: "s \<noteq> [] \<Longrightarrow> last s \<noteq> 10 \<Longrightarrow> last (replace_newline s) = last s"
proof (induction s rule: rev_induct)
  case Nil
  then show ?case by simp
next
  case (snoc c cs)
  then show ?case by (simp add: replace_newline_def)
qed

subsection \<open>Rows and records\<close>

lemma make_entry_Kod: "map_of (make_entry cells) Kod = Some (clean_text (cells ! 1))"
  by (simp add: make_entry_def Let_def)

lemma get_Kod: "dict_get (make_entry cells) Kod d = clean_text (cells ! 1)"
  by (simp add: dict_get_def make_entry_def Let_def)

lemma get_CRN: "dict_get (make_entry cells) CRN d = clean_text (cells ! 0)"
  by (simp add: dict_get_def make_entry_def Let_def)

lemma rows_loop_eq:
  "rows_loop ex rows entries = entries @ map make_entry (filter (kept ex) rows)"
  by (induction rows arbitrary: entries) (simp_all add: kept_def make_entry_Kod Let_def)

lemma rows_loop_table: "rows_loop ex (drop 1 rows) [] = table_entries ex rows"
  by (simp add: rows_loop_eq table_entries_def)

lemma raw_code_points:
  "fiziksel_raw =
     [70, 105, 122, 105, 107, 115, 101, 108, 32, 40, 89, 252, 122, 32, 121, 252, 122, 101, 41]"
  "sanal_raw =
     [83, 97, 110, 97, 108, 32, 40, 199, 101, 118, 114, 105, 109, 105, 231, 105, 47, 79, 110,
      108, 105, 110, 101, 41]"
  by (simp_all add: fiziksel_raw_def sanal_raw_def ascii_def)

lemma clean_text_examples:
  "clean_text ([32] @ fiziksel_raw @ [10]) = fiziksel_raw"
  "clean_text (sanal_raw @ [32, 32]) = sanal_raw"
  "clean_text (ascii '' Hibrit '') = ascii ''Hibrit''"
  by (simp_all add: clean_text_def strip_def replace_newline_def isspace_def raw_code_points
      ascii_def)

lemma sample_row_mode: "sample_row crn kod ders mode ! 3 = mode"
  by (simp add: sample_row_def)

lemma akm_read:
  "read_attempt (fake_page akm_blg True) akm_selected =
     (Inr ([] # [sample_row ''10'' ''AKM 101'' ''Statik'' []] @ [ascii ''bos'']
              # [sample_row ''11'' ''AKM 101'' ''Statik'' []]),
      snd (read_attempt (fake_page akm_blg True) akm_selected))"
  by (simp add: read_attempt_def invoke_def fake_page_def akm_selected_def fake_world_def
      akm_blg_def)

subsection \<open>Round-robin chunks\<close>

lemma length_chunk_append: "length (chunk_append n p cs) = length cs"
  by (cases p) (simp add: chunk_append_def)

lemma length_fold_chunk_append: "length (fold (chunk_append n) ps cs) = length cs"
  by (induction ps arbitrary: cs) (simp_all add: length_chunk_append)

lemma nth_fold_chunk_append:
  assumes "j < length cs" and "length cs = n"
  shows "fold (chunk_append n) (enumerate k xs) cs ! j =
           cs ! j @ map snd (filter (\<lambda>p. fst p mod n = j) (enumerate k xs))"
  using assms
proof (induction xs arbitrary: k cs)
  case Nil
  then show ?case by simp
next
  case (Cons x xs)
  let ?cs = "chunk_append n (k, x) cs"
  have len: "length ?cs = n" using Cons.prems by (simp add: length_chunk_append)
  have kn: "k mod n < length cs" using Cons.prems by simp
  have step: "?cs ! j = (if k mod n = j then cs ! j @ [x] else cs ! j)"
    using Cons.prems kn by (simp add: chunk_append_def nth_list_update)
  have "fold (chunk_append n) (enumerate k (x # xs)) cs ! j =
          fold (chunk_append n) (enumerate (Suc k) xs) ?cs ! j"
    by simp
  also have "\<dots> = ?cs ! j @ map snd (filter (\<lambda>p. fst p mod n = j) (enumerate (Suc k) xs))"
    using Cons.prems len by (intro Cons.IH) simp_all
  finally show ?case by (simp add: step)
qed

lemma mset_concat_update:
  "i < length cs \<Longrightarrow> mset (concat (cs[i := cs ! i @ [x]])) = add_mset x (mset (concat cs))"
proof (induction cs arbitrary: i)
  case Nil
  then show ?case by simp
next
  case (Cons c cs)
  then show ?case by (cases i) simp_all
qed

lemma mset_fold_chunk_append:
  assumes "0 < length cs" and "length cs = n"
  shows "mset (concat (fold (chunk_append n) (enumerate k xs) cs)) = mset (concat cs) + mset xs"
  using assms
proof (induction xs arbitrary: k cs)
  case Nil
  then show ?case by simp
next
  case (Cons x xs)
  let ?cs = "chunk_append n (k, x) cs"
  have len: "length ?cs = n" using Cons.prems by (simp add: length_chunk_append)
  have kn: "k mod n < length cs" using Cons.prems by simp
  have "mset (concat ?cs) = add_mset x (mset (concat cs))"
    using kn by (simp add: chunk_append_def mset_concat_update)
  moreover have "mset (concat (fold (chunk_append n) (enumerate (Suc k) xs) ?cs)) =
      mset (concat ?cs) + mset xs"
    using Cons.prems len by (intro Cons.IH) simp_all
  ultimately show ?case by simp
qed

lemma enumerate_nth: "enumerate 0 xs = map (\<lambda>i. (i, xs ! i)) [0..<length xs]"
proof -
  have "enumerate 0 (map (\<lambda>i. xs ! i) [0..<length xs]) = map (\<lambda>i. (i, xs ! i)) [0..<length xs]"
    by (rule enumerate_map_upt)
  then show ?thesis by (simp add: map_nth)
qed

lemma round_robin_items:
  "map snd (filter (\<lambda>p. fst p mod n = j) (enumerate 0 xs)) =
     map (\<lambda>i. xs ! i) (filter (\<lambda>i. i mod n = j) [0..<length xs])"
  by (simp add: enumerate_nth filter_map comp_def)

lemma count_residue:
  "j < n \<Longrightarrow>
     length (filter (\<lambda>i. i mod n = j) [0..<L]) = L div n + (if j < L mod n then 1 else 0)"
proof (induction L)
  case 0
  then show ?case by simp
next
  case (Suc L)
  then show ?case by (auto simp: mod_Suc div_Suc)
qed

subsection \<open>Merging and sorting\<close>

lemma fold_extend:
  "fold (\<lambda>r all_entries. case r of Inr result \<Rightarrow> all_entries @ result | Inl e \<Rightarrow> all_entries)
     results acc = acc @ concat (map batch_of results)"
proof (induction results arbitrary: acc)
  case Nil
  then show ?case by simp
next
  case (Cons r results)
  then show ?case by (cases r) simp_all
qed

lemma collect_futures_concat: "collect_futures results = concat (map batch_of results)"
  by (simp add: collect_futures_def fold_extend)

lemma sort_entries_sort_key: "sort_entries all_entries = sort_key sort_keyfn all_entries"
  by (simp add: sort_entries_def)

lemma mset_batches:
  "mset results' = mset results \<Longrightarrow>
     mset (concat (map batch_of results')) = mset (concat (map batch_of results))"
proof -
  assume eq: "mset results' = mset results"
  have "mset (concat (map batch_of rs)) = sum_mset (image_mset (\<lambda>r. mset (batch_of r)) (mset rs))"
    for rs :: "(exn + entry list) list"
    by (simp add: mset_concat comp_def flip: sum_mset_sum_list)
  then show ?thesis using eq by simp
qed

lemma keys_of_sort_key: "map f (sort_key f xs) = sort (map f xs)"
  by (rule properties_for_sort [symmetric]) simp_all

lemma sort_key_perm_keys:
  "mset xs = mset ys \<Longrightarrow> map f (sort_key f xs) = map f (sort_key f ys)"
proof -
  assume "mset xs = mset ys"
  then have "mset (map f xs) = mset (map f ys)" by simp
  then have "sort (map f xs) = sort (map f ys)"
    by (intro properties_for_sort) simp_all
  then show ?thesis by (simp add: keys_of_sort_key)
qed

lemma sort_key_perm_inj:
  assumes "mset xs = mset ys" and "inj_on f (set ys)"
  shows "sort_key f xs = sort_key f ys"
proof -
  from assms(1) have "set xs = set ys" by (rule mset_eq_setD)
  with assms(2) have "inj_on f (set xs)" by simp
  moreover have "mset xs = mset (sort_key f ys)" using assms(1) by simp
  moreover have "sorted (map f (sort_key f ys))" by simp
  ultimately show ?thesis by (intro sort_key_inj_key_eq)
qed

subsection \<open>Bounded retry and the call log\<close>

lemma select_course_code_retry:
  "select_course_code P k n w =
     (case retry_stale n (select_attempt P k) w of
        (Inl e, w') \<Rightarrow> (Inl e, w')
      | (Inr None, w') \<Rightarrow> (Inr False, w')
      | (Inr (Some u), w') \<Rightarrow> (Inr True, w'))"
  by (induction n arbitrary: w) (auto split: prod.splits sum.splits exn.splits)

lemma click_show_retry:
  "click_show P n w =
     (case retry_stale n (click_attempt P) w of
        (Inl e, w') \<Rightarrow> (Inl e, w')
      | (Inr None, w') \<Rightarrow> (Inr False, w')
      | (Inr (Some u), w') \<Rightarrow> (Inr True, w'))"
  by (induction n arbitrary: w) (auto split: prod.splits sum.splits exn.splits)

lemma collect_course_entries_retry:
  "collect_course_entries P ex k n w =
     (case retry_stale n (read_attempt P) w of
        (Inl e, w') \<Rightarrow> (Inl e, w')
      | (Inr None, w') \<Rightarrow> (Inr [], w')
      | (Inr (Some rows), w') \<Rightarrow> (Inr (table_entries ex rows), w'))"
  by (induction n arbitrary: w)
    (auto simp: rows_loop_eq table_entries_def split: prod.splits sum.splits exn.splits)

lemma retry_after_stale:
  "stale_run j attempt w = Some w1 \<Longrightarrow>
     retry_stale (j + n) attempt w = retry_stale n attempt w1"
  by (induction j arbitrary: w) (auto split: prod.splits sum.splits exn.splits)

lemma retry_ok:
  assumes "j < m" and "stale_run j attempt w = Some w1" and "attempt w1 = (Inr v, w2)"
  shows "retry_stale m attempt w = (Inr (Some v), w2)"
proof -
  from assms(1) obtain n where m: "m = j + Suc n" by (auto simp: less_iff_Suc_add)
  have "retry_stale (j + Suc n) attempt w = retry_stale (Suc n) attempt w1"
    using assms(2) by (rule retry_after_stale)
  also have "\<dots> = (Inr (Some v), w2)" using assms(3) by simp
  finally show ?thesis unfolding m .
qed

lemma retry_exhausted:
  assumes "stale_run m attempt w = Some w1"
  shows "retry_stale m attempt w = (Inr None, w1)"
  using retry_after_stale [OF assms, of 0] by simp

lemma retry_trace:
  assumes "retry_stale n (invoke c out f) w = (r, w')"
  shows "\<exists>j. j \<le> n \<and> (r = Inr None \<longrightarrow> j = n) \<and> (r \<noteq> Inr None \<longrightarrow> j < n) \<and>
           trace w' = trace w @ replicate j (c, Raised StaleElementReferenceException) @
             (case r of Inr (Some v) \<Rightarrow> [(c, out v)] | Inr None \<Rightarrow> [] | Inl e \<Rightarrow> [(c, Raised e)])"
  using assms
proof (induction n arbitrary: w)
  case 0
  then show ?case by auto
next
  case (Suc n)
  obtain a s' where f: "f (sess w) = (a, s')" by (cases "f (sess w)")
  let ?w1 = "\<lparr>sess = s', trace = trace w @ [(c, case a of Inl e \<Rightarrow> Raised e | Inr v \<Rightarrow> out v)]\<rparr>"
  have inv: "invoke c out f w = (a, ?w1)" by (simp add: invoke_def f)
  show ?case
  proof (cases a)
    case (Inr v)
    with Suc.prems inv have "r = Inr (Some v)" "w' = ?w1" by auto
    then show ?thesis using Inr by (intro exI [of _ 0]) simp
  next
    case (Inl e)
    show ?thesis
    proof (cases e)
      case OtherException
      with Suc.prems inv Inl have "r = Inl OtherException" "w' = ?w1" by auto
      then show ?thesis using Inl OtherException by (intro exI [of _ 0]) simp
    next
      case StaleElementReferenceException
      with Suc.prems inv Inl have "retry_stale n (invoke c out f) ?w1 = (r, w')" by auto
      from Suc.IH [OF this] obtain j where j: "j \<le> n" "r = Inr None \<longrightarrow> j = n"
        "r \<noteq> Inr None \<longrightarrow> j < n"
        "trace w' = trace ?w1 @ replicate j (c, Raised StaleElementReferenceException) @
             (case r of Inr (Some v) \<Rightarrow> [(c, out v)] | Inr None \<Rightarrow> [] | Inl e \<Rightarrow> [(c, Raised e)])"
        by blast
      then show ?thesis using Inl StaleElementReferenceException
        by (intro exI [of _ "Suc j"]) (simp add: replicate_append_same)
    qed
  qed
qed

lemma tables_read_append: "tables_read (a @ b) = tables_read a @ tables_read b"
  by (induction a rule: tables_read.induct) simp_all

lemma quits_append: "quits (a @ b) = quits a + quits b"
  by (simp add: quits_def)

lemma tables_read_stale: "tables_read (replicate j (c, Raised e)) = []"
  by (induction j) simp_all

lemma quits_replicate: "c \<noteq> Quit \<Longrightarrow> quits (replicate j (c, out)) = 0"
  by (simp add: quits_def)

lemma select_ok:
  "j < m \<Longrightarrow> stale_run j (select_attempt P k) w = Some w1 \<Longrightarrow>
     select_attempt P k w1 = (Inr u, w2) \<Longrightarrow> select_course_code P k m w = (Inr True, w2)"
  by (simp add: select_course_code_retry retry_ok)

lemma select_exhausted:
  "stale_run m (select_attempt P k) w = Some w1 \<Longrightarrow>
     select_course_code P k m w = (Inr False, w1)"
  by (simp add: select_course_code_retry retry_exhausted)

lemma click_ok:
  "j < m \<Longrightarrow> stale_run j (click_attempt P) w = Some w1 \<Longrightarrow>
     click_attempt P w1 = (Inr u, w2) \<Longrightarrow> click_show P m w = (Inr True, w2)"
  by (simp add: click_show_retry retry_ok)

lemma click_exhausted:
  "stale_run m (click_attempt P) w = Some w1 \<Longrightarrow> click_show P m w = (Inr False, w1)"
  by (simp add: click_show_retry retry_exhausted)

lemma read_ok:
  "j < m \<Longrightarrow> stale_run j (read_attempt P) w = Some w1 \<Longrightarrow>
     read_attempt P w1 = (Inr rows, w2) \<Longrightarrow>
     collect_course_entries P ex k m w = (Inr (table_entries ex rows), w2)"
  by (simp add: collect_course_entries_retry retry_ok)

lemma read_exhausted:
  "stale_run m (read_attempt P) w = Some w1 \<Longrightarrow>
     collect_course_entries P ex k m w = (Inr [], w1)"
  by (simp add: collect_course_entries_retry retry_exhausted)

lemma stale_run_trace:
  "stale_run j (invoke c out f) w = Some w1 \<Longrightarrow>
     trace w1 = trace w @ replicate j (c, Raised StaleElementReferenceException)"
proof (induction j arbitrary: w)
  case 0
  then show ?case by simp
next
  case (Suc j)
  obtain a s' where f: "f (sess w) = (a, s')" by (cases "f (sess w)")
  let ?w = "\<lparr>sess = s', trace = trace w @ [(c, Raised StaleElementReferenceException)]\<rparr>"
  have inv: "invoke c out f w =
      (a, \<lparr>sess = s', trace = trace w @ [(c, case a of Inl e \<Rightarrow> Raised e | Inr v \<Rightarrow> out v)]\<rparr>)"
    by (simp add: invoke_def f)
  from Suc.prems have a: "a = Inl StaleElementReferenceException"
    by (auto simp: inv split: sum.splits exn.splits)
  with Suc.prems have "stale_run j (invoke c out f) ?w = Some w1"
    by (simp add: inv)
  from Suc.IH [OF this] show ?case by (simp add: replicate_append_same)
qed

lemma select_summary:
  assumes "select_course_code P k (Suc n) w = (r, w')"
  shows "\<exists>new. trace w' = trace w @ new \<and> tables_read new = [] \<and> quits new = 0 \<and>
           (\<exists>out. (SelectCode k, out) \<in> set new)"
proof -
  obtain r0 where r0: "retry_stale (Suc n) (select_attempt P k) w = (r0, w')"
    using assms unfolding select_course_code_retry
    by (auto split: prod.splits sum.splits option.splits)
  from retry_trace [OF r0 [unfolded select_attempt_def]]
  obtain j where j: "r0 = Inr None \<longrightarrow> j = Suc n"
    and tr: "trace w' = trace w @ replicate j (SelectCode k, Raised StaleElementReferenceException) @
        (case r0 of Inr (Some v) \<Rightarrow> [(SelectCode k, Done)] | Inr None \<Rightarrow> []
         | Inl e \<Rightarrow> [(SelectCode k, Raised e)])"
    by blast
  let ?new = "replicate j (SelectCode k, Raised StaleElementReferenceException) @
        (case r0 of Inr (Some v) \<Rightarrow> [(SelectCode k, Done)] | Inr None \<Rightarrow> []
         | Inl e \<Rightarrow> [(SelectCode k, Raised e)])"
  have "tables_read ?new = []"
    by (simp add: tables_read_append tables_read_stale split: sum.splits option.splits)
  moreover have "quits ?new = 0"
    by (simp add: quits_append quits_replicate) (simp add: quits_def split: sum.splits option.splits)
  moreover have "\<exists>out. (SelectCode k, out) \<in> set ?new"
    using j by (cases r0; cases j) (auto split: option.splits)
  ultimately show ?thesis using tr by blast
qed

lemma click_summary:
  assumes "click_show P n w = (r, w')"
  shows "\<exists>new. trace w' = trace w @ new \<and> tables_read new = [] \<and> quits new = 0"
proof -
  obtain r0 where r0: "retry_stale n (click_attempt P) w = (r0, w')"
    using assms unfolding click_show_retry
    by (auto split: prod.splits sum.splits option.splits)
  from retry_trace [OF r0 [unfolded click_attempt_def]]
  obtain j where
    tr: "trace w' = trace w @ replicate j (ClickShow, Raised StaleElementReferenceException) @
        (case r0 of Inr (Some v) \<Rightarrow> [(ClickShow, Done)] | Inr None \<Rightarrow> []
         | Inl e \<Rightarrow> [(ClickShow, Raised e)])"
    by blast
  let ?new = "replicate j (ClickShow, Raised StaleElementReferenceException) @
        (case r0 of Inr (Some v) \<Rightarrow> [(ClickShow, Done)] | Inr None \<Rightarrow> []
         | Inl e \<Rightarrow> [(ClickShow, Raised e)])"
  have "tables_read ?new = []"
    by (simp add: tables_read_append tables_read_stale split: sum.splits option.splits)
  moreover have "quits ?new = 0"
    by (simp add: quits_append quits_replicate) (simp add: quits_def split: sum.splits option.splits)
  ultimately show ?thesis using tr by blast
qed

lemma read_summary:
  assumes "collect_course_entries P ex k n w = (r, w')"
  shows "\<exists>new. trace w' = trace w @ new \<and> quits new = 0 \<and>
           concat (map (table_entries ex) (tables_read new)) = batch_of r"
proof -
  obtain r0 where r0: "retry_stale n (read_attempt P) w = (r0, w')"
    and r: "r = (case r0 of Inl e \<Rightarrow> Inl e | Inr None \<Rightarrow> Inr []
                 | Inr (Some rows) \<Rightarrow> Inr (table_entries ex rows))"
    using assms unfolding collect_course_entries_retry
    by (auto split: prod.splits sum.splits option.splits)
  from retry_trace [OF r0 [unfolded read_attempt_def]]
  obtain j where
    tr: "trace w' = trace w @ replicate j (ReadTable, Raised StaleElementReferenceException) @
        (case r0 of Inr (Some v) \<Rightarrow> [(ReadTable, Table v)] | Inr None \<Rightarrow> []
         | Inl e \<Rightarrow> [(ReadTable, Raised e)])"
    by blast
  let ?new = "replicate j (ReadTable, Raised StaleElementReferenceException) @
        (case r0 of Inr (Some v) \<Rightarrow> [(ReadTable, Table v)] | Inr None \<Rightarrow> []
         | Inl e \<Rightarrow> [(ReadTable, Raised e)])"
  have "concat (map (table_entries ex) (tables_read ?new)) = batch_of r"
    by (simp add: r tables_read_append tables_read_stale split: sum.splits option.splits)
  moreover have "quits ?new = 0"
    by (simp add: quits_append quits_replicate) (simp add: quits_def split: sum.splits option.splits)
  ultimately show ?thesis using tr by blast
qed

subsection \<open>What the worker's loop adds to the log\<close>

lemma scrape_item_summary:
  assumes "scrape_item P ex k (entries, w) = (entries', w')"
  shows "\<exists>new. trace w' = trace w @ new \<and> quits new = 0 \<and>
           entries' = entries @ concat (map (table_entries ex) (tables_read new)) \<and>
           (\<exists>out. (SelectCode k, out) \<in> set new)"
proof -
  obtain r1 w1 where s1: "select_course_code P k 3 w = (r1, w1)"
    by (cases "select_course_code P k 3 w")
  then have "select_course_code P k (Suc 2) w = (r1, w1)" by (simp add: numeral_3_eq_3)
  from select_summary [OF this] obtain n1 where n1: "trace w1 = trace w @ n1"
    "tables_read n1 = []" "quits n1 = 0" "\<exists>out. (SelectCode k, out) \<in> set n1"
    by blast
  show ?thesis
  proof (cases "r1 = Inr True")
    case False
    with assms s1 have "entries' = entries" "w' = w1"
      by (auto simp: scrape_item_def split: sum.splits bool.splits)
    with n1 show ?thesis by (intro exI [of _ n1]) simp
  next
    case True
    obtain r2 w2 where s2: "click_show P 3 w1 = (r2, w2)" by (cases "click_show P 3 w1")
    from click_summary [OF this] obtain n2 where n2: "trace w2 = trace w1 @ n2"
      "tables_read n2 = []" "quits n2 = 0"
      by blast
    show ?thesis
    proof (cases "r2 = Inr True")
      case False
      with assms s1 s2 True have "entries' = entries" "w' = w2"
        by (auto simp: scrape_item_def split: sum.splits bool.splits)
      with n1 n2 show ?thesis
        by (intro exI [of _ "n1 @ n2"]) (auto simp: tables_read_append quits_append)
    next
      case r2: True
      obtain r3 w3 where s3: "collect_course_entries P ex k 3 w2 = (r3, w3)"
        by (cases "collect_course_entries P ex k 3 w2")
      from read_summary [OF this] obtain n3 where n3: "trace w3 = trace w2 @ n3"
        "quits n3 = 0" "concat (map (table_entries ex) (tables_read n3)) = batch_of r3"
        by blast
      from assms s1 s2 s3 True r2 have "entries' = entries @ batch_of r3" "w' = w3"
        by (auto simp: scrape_item_def split: sum.splits if_splits)
      with n1 n2 n3 show ?thesis
        by (intro exI [of _ "n1 @ n2 @ n3"]) (auto simp: tables_read_append quits_append)
    qed
  qed
qed

lemma fold_scrape_item_summary:
  assumes "fold (scrape_item P ex) chunk (entries, w) = (entries', w')"
  shows "\<exists>new. trace w' = trace w @ new \<and> quits new = 0 \<and>
           entries' = entries @ concat (map (table_entries ex) (tables_read new)) \<and>
           (\<forall>k \<in> set chunk. \<exists>out. (SelectCode k, out) \<in> set new)"
  using assms
proof (induction chunk arbitrary: entries w)
  case Nil
  then show ?case by (simp add: quits_def)
next
  case (Cons k chunk)
  obtain e1 w1 where it: "scrape_item P ex k (entries, w) = (e1, w1)"
    by (cases "scrape_item P ex k (entries, w)")
  from scrape_item_summary [OF it] obtain n1 where n1: "trace w1 = trace w @ n1" "quits n1 = 0"
    "e1 = entries @ concat (map (table_entries ex) (tables_read n1))"
    "\<exists>out. (SelectCode k, out) \<in> set n1"
    by blast
  from Cons.prems it have "fold (scrape_item P ex) chunk (e1, w1) = (entries', w')" by simp
  from Cons.IH [OF this] obtain n2 where n2: "trace w' = trace w1 @ n2" "quits n2 = 0"
    "entries' = e1 @ concat (map (table_entries ex) (tables_read n2))"
    "\<forall>k \<in> set chunk. \<exists>out. (SelectCode k, out) \<in> set n2"
    by blast
  from n1 n2 show ?case
    by (intro exI [of _ "n1 @ n2"]) (auto simp: tables_read_append quits_append)
qed

lemma invoke_trace:
  "invoke c out f w = (r, w') \<Longrightarrow>
     trace w' = trace w @ [(c, case r of Inl e \<Rightarrow> Raised e | Inr v \<Rightarrow> out v)]"
  by (auto simp: invoke_def split: prod.splits)

lemma scrape_setup_summary:
  assumes "scrape_setup P w = (r, w')"
  shows "\<exists>new. trace w' = trace w @ new \<and> quits new = 0 \<and> tables_read new = []"
proof -
  obtain r1 w1 where g: "invoke Get (\<lambda>u. Done) (op_get P) w = (r1, w1)"
    by (cases "invoke Get (\<lambda>u. Done) (op_get P) w")
  note t1 = invoke_trace [OF g]
  show ?thesis
  proof (cases r1)
    case (Inl e)
    with assms g have "w' = w1" by (simp add: scrape_setup_def)
    with t1 Inl show ?thesis by (simp add: quits_def)
  next
    case (Inr u)
    with assms g have l: "invoke SetLevel (\<lambda>u. Done) (op_set_level P) w1 = (r, w')"
      by (simp add: scrape_setup_def)
    note t2 = invoke_trace [OF l]
    show ?thesis using t1 t2 Inr
      by (intro exI [of _ "[(Get, Done), (SetLevel, case r of Inl e \<Rightarrow> Raised e | Inr v \<Rightarrow> Done)]"])
        (simp add: quits_def split: sum.splits)
  qed
qed

lemma scrape_body_summary:
  assumes "scrape_body P ex chunk w = (r, w')"
  shows "\<exists>new. trace w' = trace w @ new \<and> quits new = 0 \<and>
           concat (map (table_entries ex) (tables_read new)) = batch_of r \<and>
           (isl r \<or> (\<forall>k \<in> set chunk. \<exists>out. (SelectCode k, out) \<in> set new))"
proof -
  obtain r1 w1 where s: "scrape_setup P w = (r1, w1)" by (cases "scrape_setup P w")
  from scrape_setup_summary [OF s] obtain n1 where n1: "trace w1 = trace w @ n1" "quits n1 = 0"
    "tables_read n1 = []"
    by blast
  show ?thesis
  proof (cases r1)
    case (Inl e)
    with assms s have "r = Inl e" "w' = w1" by (simp_all add: scrape_body_def)
    with n1 show ?thesis by (intro exI [of _ n1]) simp
  next
    case (Inr u)
    obtain e2 w2 where f: "fold (scrape_item P ex) chunk ([], w1) = (e2, w2)"
      by (cases "fold (scrape_item P ex) chunk ([], w1)")
    from fold_scrape_item_summary [OF f] obtain n2 where n2: "trace w2 = trace w1 @ n2"
      "quits n2 = 0" "e2 = [] @ concat (map (table_entries ex) (tables_read n2))"
      "\<forall>k \<in> set chunk. \<exists>out. (SelectCode k, out) \<in> set n2"
      by blast
    from assms s f Inr have "r = Inr e2" "w' = w2" by (simp_all add: scrape_body_def)
    with n1 n2 show ?thesis
      by (intro exI [of _ "n1 @ n2"]) (auto simp: tables_read_append quits_append)
  qed
qed

subsection \<open>The worker's result\<close>

lemma scrape_chunk_nonempty:
  assumes "chunk \<noteq> []"
    and "invoke CreateDriver (\<lambda>u. Done) (op_create P) w = (Inr (), w0)"
    and "scrape_body P ex chunk w0 = (rb, w2)"
    and "invoke Quit (\<lambda>u. Done) (op_quit P) w2 = (rq, w3)"
  shows "scrape_chunk P ex chunk w = (case rq of Inl e \<Rightarrow> Inl e | Inr u \<Rightarrow> rb, w3)"
  using assms by (simp add: scrape_chunk_def split: sum.splits)

lemma scrape_chunk_entries:
  assumes "scrape_chunk P ex chunk w = (Inr entries, w')"
  shows "concat (map (table_entries ex) (tables_read (trace w'))) =
           concat (map (table_entries ex) (tables_read (trace w))) @ entries"
proof (cases "chunk = []")
  case True
  with assms show ?thesis by (simp add: scrape_chunk_def)
next
  case False
  obtain rc w0 where c: "invoke CreateDriver (\<lambda>u. Done) (op_create P) w = (rc, w0)"
    by (cases "invoke CreateDriver (\<lambda>u. Done) (op_create P) w")
  with assms False obtain u where rc: "rc = Inr u"
    by (cases rc) (auto simp: scrape_chunk_def)
  obtain rb w2 where b: "scrape_body P ex chunk w0 = (rb, w2)"
    by (cases "scrape_body P ex chunk w0")
  obtain rq w3 where q: "invoke Quit (\<lambda>u. Done) (op_quit P) w2 = (rq, w3)"
    by (cases "invoke Quit (\<lambda>u. Done) (op_quit P) w2")
  from scrape_chunk_nonempty [OF False c [unfolded rc, simplified] b q] assms
  have r: "rb = Inr entries" "w' = w3" and rq: "\<not> isl rq"
    by (auto split: sum.splits)
  from scrape_body_summary [OF b] obtain new where new: "trace w2 = trace w0 @ new"
    "concat (map (table_entries ex) (tables_read new)) = batch_of rb"
    by blast
  from invoke_trace [OF c] rc have t0: "trace w0 = trace w @ [(CreateDriver, Done)]" by simp
  from invoke_trace [OF q] rq have t3: "trace w3 = trace w2 @ [(Quit, Done)]"
    by (cases rq) simp_all
  show ?thesis using r new t0 t3 by (simp add: tables_read_append)
qed

lemma table_entries_not_excluded:
  "e \<in> set (table_entries ex rows) \<Longrightarrow> dict_get e Kod [] \<notin> set ex"
  by (auto simp: table_entries_def kept_def get_Kod)

lemma scrape_chunk_not_excluded:
  assumes "scrape_chunk P ex chunk w = (Inr entries, w')" and "e \<in> set entries"
  shows "dict_get e Kod [] \<notin> set ex"
proof -
  from scrape_chunk_entries [OF assms(1)] assms(2)
  have "e \<in> set (concat (map (table_entries ex) (tables_read (trace w'))))" by simp
  then show ?thesis by (auto dest: table_entries_not_excluded)
qed

subsection \<open>Excluded codes\<close>

lemma set_sort_entries: "set (sort_entries all_entries) = set all_entries"
  by (simp add: sort_entries_sort_key)

lemma fst_scrape_chunk_not_excluded:
  assumes "fst (scrape_chunk P ex chunk w) = Inr entries" and "e \<in> set entries"
  shows "dict_get e Kod [] \<notin> set ex"
proof -
  from assms(1) have "scrape_chunk P ex chunk w = (Inr entries, snd (scrape_chunk P ex chunk w))"
    by (cases "scrape_chunk P ex chunk w") simp
  then show ?thesis using assms(2) by (rule scrape_chunk_not_excluded)
qed

lemma main_rows_not_excluded:
  assumes "main_rows P ex W codes init order = Inr rows" and "e \<in> set rows"
  shows "dict_get e Kod [] \<notin> set ex"
proof (cases "codes = []")
  case True
  with assms show ?thesis by (simp add: main_rows_def sort_entries_def)
next
  case False
  show ?thesis
  proof (cases "W \<le> 1")
    case True
    with assms False obtain es where es: "fst (scrape_chunk P ex codes (init 0)) = Inr es"
      and rows: "rows = sort_entries es"
      by (auto simp: main_rows_def split: sum.splits)
    from assms(2) rows have "e \<in> set es" by (simp add: set_sort_entries)
    with es show ?thesis by (rule fst_scrape_chunk_not_excluded)
  next
    case W: False
    let ?res = "map (\<lambda>i. fst (scrape_chunk P ex (make_chunks W codes ! i) (init i))) order"
    from assms False W have "rows = sort_entries (collect_futures ?res)"
      by (simp add: main_rows_def Let_def)
    with assms(2) have "e \<in> set (concat (map batch_of ?res))"
      by (simp add: set_sort_entries collect_futures_concat)
    then obtain i where "e \<in> set (batch_of (fst (scrape_chunk P ex (make_chunks W codes ! i) (init i))))"
      by auto
    then show ?thesis
      by (cases "fst (scrape_chunk P ex (make_chunks W codes ! i) (init i))")
        (auto dest: fst_scrape_chunk_not_excluded)
  qed
qed

subsection \<open>Outcomes of one item\<close>

lemma scrape_item_ok:
  assumes "select_course_code P k 3 w = (Inr True, b1)"
    and "click_show P 3 b1 = (Inr True, b2)"
    and "collect_course_entries P ex k 3 b2 = (Inr batch, b3)"
  shows "scrape_item P ex k (entries, w) = (entries @ batch, b3)"
  using assms by (simp add: scrape_item_def)

lemma scrape_item_no_select:
  "select_course_code P k 3 w = (Inr False, c1) \<Longrightarrow>
     scrape_item P ex k (entries, w) = (entries, c1)"
  by (simp add: scrape_item_def)

lemma scrape_item_no_click:
  "select_course_code P k 3 w = (Inr True, b1) \<Longrightarrow> click_show P 3 b1 = (Inr False, c2) \<Longrightarrow>
     scrape_item P ex k (entries, w) = (entries, c2)"
  by (simp add: scrape_item_def)

subsection \<open>Runs of the scripted session\<close>

lemma fake_select_attempt:
  "select_attempt (fake_page tbl ok) k (fake_world sel a b c tr) =
     (if a = 0 then (Inr (), fake_world k 0 b c (tr @ [(SelectCode k, Done)]))
      else (Inl StaleElementReferenceException,
            fake_world sel (a - 1) b c
              (tr @ [(SelectCode k, Raised StaleElementReferenceException)])))"
  by (simp add: select_attempt_def invoke_def fake_page_def fake_world_def)

lemma fake_click_attempt:
  "click_attempt (fake_page tbl ok) (fake_world sel a b c tr) =
     (if b = 0 then (Inr (), fake_world sel a 0 c (tr @ [(ClickShow, Done)]))
      else (Inl StaleElementReferenceException,
            fake_world sel a (b - 1) c
              (tr @ [(ClickShow, Raised StaleElementReferenceException)])))"
  by (simp add: click_attempt_def invoke_def fake_page_def fake_world_def)

lemma fake_read_attempt:
  "read_attempt (fake_page tbl ok) (fake_world sel a b c tr) =
     (if c = 0 then (Inr (tbl sel), fake_world sel a b 0 (tr @ [(ReadTable, Table (tbl sel))]))
      else (Inl StaleElementReferenceException,
            fake_world sel a b (c - 1)
              (tr @ [(ReadTable, Raised StaleElementReferenceException)])))"
  by (simp add: read_attempt_def invoke_def fake_page_def fake_world_def)

lemma fake_stale_select:
  "j \<le> a \<Longrightarrow>
     stale_run j (select_attempt (fake_page tbl ok) k) (fake_world sel a b c tr) =
       Some (fake_world sel (a - j) b c
         (tr @ replicate j (SelectCode k, Raised StaleElementReferenceException)))"
proof (induction j arbitrary: a tr)
  case 0
  then show ?case by simp
next
  case (Suc j)
  then show ?case by (simp add: fake_select_attempt replicate_append_same)
qed

lemma fake_stale_click:
  "j \<le> b \<Longrightarrow>
     stale_run j (click_attempt (fake_page tbl ok)) (fake_world sel a b c tr) =
       Some (fake_world sel a (b - j) c
         (tr @ replicate j (ClickShow, Raised StaleElementReferenceException)))"
proof (induction j arbitrary: b tr)
  case 0
  then show ?case by simp
next
  case (Suc j)
  then show ?case by (simp add: fake_click_attempt replicate_append_same)
qed

lemma fake_stale_read:
  "j \<le> c \<Longrightarrow>
     stale_run j (read_attempt (fake_page tbl ok)) (fake_world sel a b c tr) =
       Some (fake_world sel a b (c - j)
         (tr @ replicate j (ReadTable, Raised StaleElementReferenceException)))"
proof (induction j arbitrary: c tr)
  case 0
  then show ?case by simp
next
  case (Suc j)
  then show ?case by (simp add: fake_read_attempt replicate_append_same)
qed

lemma fake_item_ok:
  "scrape_item (fake_page tbl ok) ex k (entries, fake_world sel 0 0 0 tr) =
     (entries @ table_entries ex (tbl k),
      fake_world k 0 0 0
        (tr @ [(SelectCode k, Done), (ClickShow, Done), (ReadTable, Table (tbl k))]))"
proof -
  let ?P = "fake_page tbl ok"
  have 1: "select_course_code ?P k 3 (fake_world sel 0 0 0 tr) =
      (Inr True, fake_world k 0 0 0 (tr @ [(SelectCode k, Done)]))"
    by (rule select_ok [where j = 0 and ?w1.0 = "fake_world sel 0 0 0 tr"])
      (simp_all add: fake_select_attempt)
  have 2: "click_show ?P 3 (fake_world k 0 0 0 (tr @ [(SelectCode k, Done)])) =
      (Inr True, fake_world k 0 0 0 ((tr @ [(SelectCode k, Done)]) @ [(ClickShow, Done)]))"
    by (rule click_ok [where j = 0 and ?w1.0 = "fake_world k 0 0 0 (tr @ [(SelectCode k, Done)])"])
      (simp_all add: fake_click_attempt)
  have 3: "collect_course_entries ?P ex k 3
        (fake_world k 0 0 0 ((tr @ [(SelectCode k, Done)]) @ [(ClickShow, Done)])) =
      (Inr (table_entries ex (tbl k)),
       fake_world k 0 0 0
         (((tr @ [(SelectCode k, Done)]) @ [(ClickShow, Done)]) @ [(ReadTable, Table (tbl k))]))"
    by (rule read_ok [where j = 0 and
          ?w1.0 = "fake_world k 0 0 0 ((tr @ [(SelectCode k, Done)]) @ [(ClickShow, Done)])"])
      (simp_all add: fake_read_attempt)
  from scrape_item_ok [OF 1 2 3] show ?thesis by simp
qed

lemma fake_fold_ok:
  "fst (fold (scrape_item (fake_page tbl ok) ex) chunk (entries, fake_world sel 0 0 0 tr)) =
     entries @ concat (map (\<lambda>k. table_entries ex (tbl k)) chunk)"
  by (induction chunk arbitrary: entries sel tr) (simp_all add: fake_item_ok)

lemma fake_setup:
  "scrape_setup (fake_page tbl ok) (fake_world sel a b c tr) =
     (if ok then (Inr (), fake_world sel a b c (tr @ [(Get, Done), (SetLevel, Done)]))
      else (Inl OtherException, fake_world sel a b c (tr @ [(Get, Raised OtherException)])))"
  by (simp add: scrape_setup_def invoke_def fake_page_def fake_world_def)

lemma fake_create:
  "invoke CreateDriver (\<lambda>u. Done) (op_create (fake_page tbl ok)) (fake_world sel a b c tr) =
     (Inr (), fake_world sel a b c (tr @ [(CreateDriver, Done)]))"
  by (simp add: invoke_def fake_page_def fake_world_def)

lemma fake_quit:
  "invoke Quit (\<lambda>u. Done) (op_quit (fake_page tbl ok)) (fake_world sel a b c tr) =
     (Inr (), fake_world sel a b c (tr @ [(Quit, Done)]))"
  by (simp add: invoke_def fake_page_def fake_world_def)

lemma fake_chunk_ok:
  "fst (scrape_chunk (fake_page tbl True) ex chunk (fresh 0 0 0)) =
     Inr (concat (map (\<lambda>k. table_entries ex (tbl k)) chunk))"
proof (cases "chunk = []")
  case True
  then show ?thesis by (simp add: scrape_chunk_def)
next
  case False
  obtain es w2 where f: "fold (scrape_item (fake_page tbl True) ex) chunk
      ([], fake_world [] 0 0 0 ([(CreateDriver, Done)] @ [(Get, Done), (SetLevel, Done)])) = (es, w2)"
    by (cases "fold (scrape_item (fake_page tbl True) ex) chunk
      ([], fake_world [] 0 0 0 ([(CreateDriver, Done)] @ [(Get, Done), (SetLevel, Done)]))")
  then have es: "es = concat (map (\<lambda>k. table_entries ex (tbl k)) chunk)"
    using fake_fold_ok [of tbl True ex chunk "[]" "[]"
        "[(CreateDriver, Done)] @ [(Get, Done), (SetLevel, Done)]"]
    by simp
  obtain sel a b c tr where w2: "w2 = fake_world sel a b c tr"
    by (cases w2, rename_tac s t, case_tac s) (simp add: fake_world_def)
  show ?thesis
    using False f es
    by (simp add: scrape_chunk_def fresh_def fake_create scrape_body_def fake_setup w2 fake_quit)
qed

subsection \<open>Concrete records\<close>

lemma clean_text_plain:
  "clean_text (ascii ''20'') = ascii ''20''"
  "clean_text (ascii ''100'') = ascii ''100''"
  "clean_text (ascii ''7'') = ascii ''7''"
  "clean_text (ascii ''5'') = ascii ''5''"
  "clean_text (ascii ''AKM 101'') = ascii ''AKM 101''"
  "clean_text (ascii ''BLG 102'') = ascii ''BLG 102''"
  "clean_text (ascii ''ORT 100'') = ascii ''ORT 100''"
  "clean_text (ascii ''Ortak A'') = ascii ''Ortak A''"
  "clean_text (ascii ''Ortak B'') = ascii ''Ortak B''"
  by (simp_all add: clean_text_def strip_def replace_newline_def isspace_def ascii_def)

lemma sample_row_cells:
  "sample_row crn kod ders mode ! 0 = ascii crn"
  "sample_row crn kod ders mode ! 1 = ascii kod"
  "sample_row crn kod ders mode ! Suc 0 = ascii kod"
  "sample_row crn kod ders mode ! 2 = ascii ders"
  "length (sample_row crn kod ders mode) = 14"
  by (simp_all add: sample_row_def)

lemma get_Ders: "dict_get (make_entry cells) Ders d = clean_text (cells ! 2)"
  by (simp add: dict_get_def make_entry_def Let_def)

lemma crn_keys:
  "sort_keyfn crn_20 = (ascii ''AKM 101'', ascii ''20'')"
  "sort_keyfn crn_100 = (ascii ''AKM 101'', ascii ''100'')"
  by (simp_all add: sort_keyfn_def crn_20_def crn_100_def get_Kod get_CRN sample_row_cells
      clean_text_plain)

lemma crn_order: "(ascii ''100'', ascii ''20'') \<in> lexord {(a, b). a < b}"
  by (simp add: ascii_def)

lemma crn_sorted: "sort_entries [crn_20, crn_100] = [crn_100, crn_20]"
  by (simp add: sort_entries_def crn_keys ascii_def)

lemma ortak_keys:
  "sort_keyfn (make_entry ortak_a) = sort_keyfn (make_entry ortak_b)"
  by (simp add: sort_keyfn_def ortak_a_def ortak_b_def get_Kod get_CRN sample_row_cells)

lemma ortak_differ: "make_entry ortak_a \<noteq> make_entry ortak_b"
proof
  assume "make_entry ortak_a = make_entry ortak_b"
  then have "dict_get (make_entry ortak_a) Ders [] = dict_get (make_entry ortak_b) Ders []"
    by simp
  then show False
    by (simp add: get_Ders ortak_a_def ortak_b_def sample_row_cells clean_text_plain)
      (simp add: ascii_def)
qed

lemma ortak_sorted:
  "sort_entries [make_entry ortak_a, make_entry ortak_b] = [make_entry ortak_a, make_entry ortak_b]"
  "sort_entries [make_entry ortak_b, make_entry ortak_a] = [make_entry ortak_b, make_entry ortak_a]"
  by (simp_all add: sort_entries_def ortak_keys)

lemma ortak_tables:
  "table_entries [] (same_key (ascii ''AKM'')) = [make_entry ortak_a]"
  "table_entries [] (same_key (ascii ''BLG'')) = [make_entry ortak_b]"
  by (simp_all add: table_entries_def kept_def same_key_def ortak_a_def ortak_b_def
      sample_row_cells ascii_def)

lemma two_chunks: "make_chunks 2 [ascii ''AKM'', ascii ''BLG''] = [[ascii ''AKM''], [ascii ''BLG'']]"
  by code_simp

lemma fake_main_parallel:
  "main_rows (fake_page tbl True) ex 2 [ascii ''AKM'', ascii ''BLG''] fresh_sessions order =
     Inr (sort_entries (collect_futures
       (map (\<lambda>i. Inr (concat (map (\<lambda>k. table_entries ex (tbl k))
          ([[ascii ''AKM''], [ascii ''BLG'']] ! i)))) order)))"
  by (simp add: main_rows_def two_chunks fresh_sessions_def fake_chunk_ok Let_def)

lemma akm_blg_tables:
  "table_entries [ascii ''AKM 101''] (akm_blg (ascii ''AKM'')) = []"
  "table_entries [ascii ''AKM 101''] (akm_blg (ascii ''BLG'')) =
     [make_entry (sample_row ''5'' ''BLG 102'' ''Programlama'' [])]"
  "table_entries [] (akm_blg (ascii ''AKM'')) =
     [make_entry (sample_row ''10'' ''AKM 101'' ''Statik'' []),
      make_entry (sample_row ''11'' ''AKM 101'' ''Statik'' [])]"
  "table_entries [] (akm_blg (ascii ''BLG'')) =
     [make_entry (sample_row ''5'' ''BLG 102'' ''Programlama'' [])]"
  by (simp_all add: table_entries_def kept_def akm_blg_def sample_row_cells clean_text_plain)
    (simp_all add: ascii_def)

lemma sort_entries_single: "sort_entries [e] = [e]"
  by (simp add: sort_entries_def)

lemma fake_main_single:
  "main_rows (fake_page tbl True) ex 1 codes fresh_sessions order =
     Inr (sort_entries (concat (map (\<lambda>k. table_entries ex (tbl k)) codes)))"
  by (simp add: main_rows_def fresh_sessions_def fake_chunk_ok sort_entries_def)


lemma fake_body_four_faults:
  "scrape_body (fake_page akm_blg True) [] [ascii ''AKM'', ascii ''BLG''] (fresh 4 0 0) =
     (Inr (table_entries [] (akm_blg (ascii ''BLG''))),
      fake_world (ascii ''BLG'') 0 0 0
        ([(Get, Done), (SetLevel, Done)] @
         replicate 3 (SelectCode (ascii ''AKM''), Raised StaleElementReferenceException) @
         [(SelectCode (ascii ''BLG''), Raised StaleElementReferenceException),
          (SelectCode (ascii ''BLG''), Done), (ClickShow, Done),
          (ReadTable, Table (akm_blg (ascii ''BLG'')))]))"
proof -
  let ?P = "fake_page akm_blg True"
  let ?akm = "ascii ''AKM''" and ?blg = "ascii ''BLG''"
  let ?t0 = "[(Get, Done), (SetLevel, Done)]"
  let ?t1 = "?t0 @ replicate 3 (SelectCode ?akm, Raised StaleElementReferenceException)"
  let ?t2 = "?t1 @ replicate 1 (SelectCode ?blg, Raised StaleElementReferenceException)"
  have i1: "scrape_item ?P [] ?akm ([], fake_world [] 4 0 0 ?t0) = ([], fake_world [] 1 0 0 ?t1)"
    using fake_stale_select [of 3 4 akm_blg True ?akm "[]" 0 0 ?t0]
    by (intro scrape_item_no_select select_exhausted) simp
  have s2: "select_course_code ?P ?blg 3 (fake_world [] 1 0 0 ?t1) =
      (Inr True, fake_world ?blg 0 0 0 (?t2 @ [(SelectCode ?blg, Done)]))"
    using fake_stale_select [of 1 1 akm_blg True ?blg "[]" 0 0 ?t1]
    by (intro select_ok [where j = 1 and ?w1.0 = "fake_world [] 0 0 0 ?t2"])
      (simp_all add: fake_select_attempt)
  have c2: "click_show ?P 3 (fake_world ?blg 0 0 0 (?t2 @ [(SelectCode ?blg, Done)])) =
      (Inr True, fake_world ?blg 0 0 0 ((?t2 @ [(SelectCode ?blg, Done)]) @ [(ClickShow, Done)]))"
    by (rule click_ok [where j = 0 and
          ?w1.0 = "fake_world ?blg 0 0 0 (?t2 @ [(SelectCode ?blg, Done)])"])
      (simp_all add: fake_click_attempt)
  have r2: "collect_course_entries ?P [] ?blg 3
        (fake_world ?blg 0 0 0 ((?t2 @ [(SelectCode ?blg, Done)]) @ [(ClickShow, Done)])) =
      (Inr (table_entries [] (akm_blg ?blg)),
       fake_world ?blg 0 0 0
         (((?t2 @ [(SelectCode ?blg, Done)]) @ [(ClickShow, Done)]) @
          [(ReadTable, Table (akm_blg ?blg))]))"
    by (rule read_ok [where j = 0 and
          ?w1.0 = "fake_world ?blg 0 0 0 ((?t2 @ [(SelectCode ?blg, Done)]) @ [(ClickShow, Done)])"])
      (simp_all add: fake_read_attempt)
  have i2: "scrape_item ?P [] ?blg ([], fake_world [] 1 0 0 ?t1) =
      (table_entries [] (akm_blg ?blg),
       fake_world ?blg 0 0 0
         (((?t2 @ [(SelectCode ?blg, Done)]) @ [(ClickShow, Done)]) @
          [(ReadTable, Table (akm_blg ?blg))]))"
    using scrape_item_ok [OF s2 c2 r2, of "[]"] by simp
  have start: "scrape_setup ?P (fresh 4 0 0) = (Inr (), fake_world [] 4 0 0 ?t0)"
    by (simp add: fresh_def fake_setup)
  have "fold (scrape_item ?P []) [?akm, ?blg] ([], fake_world [] 4 0 0 ?t0) =
      scrape_item ?P [] ?blg (scrape_item ?P [] ?akm ([], fake_world [] 4 0 0 ?t0))"
    by simp
  also have "\<dots> = scrape_item ?P [] ?blg ([], fake_world [] 1 0 0 ?t1)"
    by (simp only: i1)
  also note i2
  finally have loop: "fold (scrape_item ?P []) [?akm, ?blg] ([], fake_world [] 4 0 0 ?t0) =
      (table_entries [] (akm_blg ?blg),
       fake_world ?blg 0 0 0
         (((?t2 @ [(SelectCode ?blg, Done)]) @ [(ClickShow, Done)]) @
          [(ReadTable, Table (akm_blg ?blg))]))" .
  show ?thesis
    unfolding scrape_body_def start by (simp only: loop prod.case sum.case) simp
qed

lemma main_rows_mset:
  assumes "main_rows P ex W codes init order = Inr final"
  shows "mset final =
    (if codes = [] then {#}
     else if W \<le> 1 then mset (batch_of (fst (scrape_chunk P ex codes (init 0))))
     else mset (concat (map
       (\<lambda>i. batch_of (fst (scrape_chunk P ex (make_chunks W codes ! i) (init i)))) order)))"
proof (cases "codes = []")
  case True
  with assms show ?thesis by (simp add: main_rows_def sort_entries_def)
next
  case False
  show ?thesis
  proof (cases "W \<le> 1")
    case True
    with assms False show ?thesis
      by (auto simp: main_rows_def sort_entries_sort_key split: sum.splits)
  next
    case W: False
    with assms False show ?thesis
      by (auto simp: main_rows_def Let_def sort_entries_sort_key collect_futures_concat comp_def)
  qed
qed

lemma twice_entries:
  "table_entries [] (twice k) =
     [make_entry (sample_row ''10'' ''AKM 101'' ''Statik'' []),
      make_entry (sample_row ''10'' ''AKM 101'' ''Statik'' [])]"
  by (simp add: table_entries_def kept_def twice_def sample_row_cells)

lemma sort_entries_same: "sort_entries [e, e] = [e, e]"
  by (simp add: sort_entries_def)

subsection \<open>An end-to-end run\<close>

text \<open>
  One worker, the codes discovered in the order BLG, AKM; the session shows two rows for
  AKM (CRN 10 and 11, and a short row between them) and one row for BLG (CRN 5). The rows
  handed to the writer are ordered by code, then CRN.
\<close>

lemma sample_keys:
  "sort_keyfn (make_entry (sample_row ''10'' ''AKM 101'' ''Statik'' [])) =
     (ascii ''AKM 101'', ascii ''10'')"
  "sort_keyfn (make_entry (sample_row ''11'' ''AKM 101'' ''Statik'' [])) =
     (ascii ''AKM 101'', ascii ''11'')"
  "sort_keyfn (make_entry (sample_row ''5'' ''BLG 102'' ''Programlama'' [])) =
     (ascii ''BLG 102'', ascii ''5'')"
  by (simp_all add: sort_keyfn_def get_Kod get_CRN sample_row_cells clean_text_def strip_def
      replace_newline_def isspace_def ascii_def)

lemma end_to_end_scenario:
  "main_rows (fake_page akm_blg True) [] 1 [ascii ''BLG'', ascii ''AKM''] fresh_sessions [] =
     Inr [make_entry (sample_row ''10'' ''AKM 101'' ''Statik'' []),
          make_entry (sample_row ''11'' ''AKM 101'' ''Statik'' []),
          make_entry (sample_row ''5'' ''BLG 102'' ''Programlama'' [])]"
  by (simp add: fake_main_single akm_blg_tables)
    (simp add: sort_entries_def sample_keys ascii_def)

subsection \<open>A session whose quit raises, and the orchestrator's handler\<close>

lemma quit_raises_attempts:
  "select_attempt (quit_raises P) k = select_attempt P k"
  "click_attempt (quit_raises P) = click_attempt P"
  "read_attempt (quit_raises P) = read_attempt P"
  by (simp_all add: select_attempt_def click_attempt_def read_attempt_def quit_raises_def)

lemma quit_raises_ops:
  "op_create (quit_raises P) = op_create P"
  "op_get (quit_raises P) = op_get P"
  "op_set_level (quit_raises P) = op_set_level P"
  by (simp_all add: quit_raises_def)

lemma quit_raises_loops:
  "select_course_code (quit_raises P) k n w = select_course_code P k n w"
  "click_show (quit_raises P) n w = click_show P n w"
  "collect_course_entries (quit_raises P) ex k n w = collect_course_entries P ex k n w"
  by (simp_all add: select_course_code_retry click_show_retry collect_course_entries_retry
      quit_raises_attempts)

lemma quit_raises_item: "scrape_item (quit_raises P) ex k acc = scrape_item P ex k acc"
  unfolding scrape_item_def quit_raises_loops by (rule refl)

lemma quit_raises_body: "scrape_body (quit_raises P) ex chunk w = scrape_body P ex chunk w"
proof -
  have item: "scrape_item (quit_raises P) ex = scrape_item P ex"
    by (intro ext) (rule quit_raises_item)
  have start: "scrape_setup (quit_raises P) w = scrape_setup P w"
    unfolding scrape_setup_def quit_raises_ops by (rule refl)
  show ?thesis unfolding scrape_body_def item start by (rule refl)
qed

lemma quit_raises_quit:
  "invoke Quit (\<lambda>u. Done) (op_quit (quit_raises P)) w =
     (Inl OtherException, \<lparr>sess = sess w, trace = trace w @ [(Quit, Raised OtherException)]\<rparr>)"
  by (simp add: invoke_def quit_raises_def)

lemma quit_raises_create:
  "invoke CreateDriver (\<lambda>u. Done) (op_create (quit_raises P)) w =
     invoke CreateDriver (\<lambda>u. Done) (op_create P) w"
  by (simp add: quit_raises_ops)

lemma quit_raises_chunk:
  assumes "chunk \<noteq> []"
    and "invoke CreateDriver (\<lambda>u. Done) (op_create P) w = (Inr (), w0)"
    and "scrape_body P ex chunk w0 = (rb, w2)"
  shows "scrape_chunk (quit_raises P) ex chunk w =
    (Inl OtherException, \<lparr>sess = sess w2, trace = trace w2 @ [(Quit, Raised OtherException)]\<rparr>)"
  using assms
  by (simp add: scrape_chunk_def quit_raises_create quit_raises_body quit_raises_quit)

lemma fake_body_ok:
  "scrape_body (fake_page tbl True) ex [k] (fake_world sel 0 0 0 tr) =
     (Inr (table_entries ex (tbl k)),
      fake_world k 0 0 0
        (tr @ [(Get, Done), (SetLevel, Done), (SelectCode k, Done), (ClickShow, Done),
               (ReadTable, Table (tbl k))]))"
  by (simp add: scrape_body_def fake_setup fake_item_ok)

lemma fake_chunk_quit_raises:
  "scrape_chunk (quit_raises (fake_page tbl True)) ex [k] (fresh 0 0 0) =
     (Inl OtherException,
      fake_world k 0 0 0
        [(CreateDriver, Done), (Get, Done), (SetLevel, Done), (SelectCode k, Done),
         (ClickShow, Done), (ReadTable, Table (tbl k)), (Quit, Raised OtherException)])"
proof -
  have ne: "[k] \<noteq> []" by simp
  have c: "invoke CreateDriver (\<lambda>u. Done) (op_create (fake_page tbl True)) (fresh 0 0 0) =
      (Inr (), fake_world [] 0 0 0 ([] @ [(CreateDriver, Done)]))"
    unfolding fresh_def by (rule fake_create)
  from quit_raises_chunk [OF ne c fake_body_ok]
  show ?thesis by (simp add: fake_world_def)
qed

lemma fake_main_quit_raises:
  "main_rows (quit_raises (fake_page tbl True)) ex 2 [ascii ''AKM'', ascii ''BLG'']
     fresh_sessions [0, 1] = Inr []"
  by (simp add: main_rows_def two_chunks fresh_sessions_def fake_chunk_quit_raises Let_def
      collect_futures_concat sort_entries_def)

lemma twice_kept: "length (filter (kept []) (drop 1 (twice k))) = 2"
  by (simp add: kept_def twice_def sample_row_cells)



lemma count_kept:
  "P r \<Longrightarrow> count (mset xs) r \<le> count (mset (map f (filter P xs))) (f r)"
  by (induction xs) auto


section \<open>Claims\<close>

text \<open>
  C1. For a work list of length at least 1 and a configured worker count of at least 2,
  \<^const>\<open>make_chunks\<close> gives exactly \<open>n = min W L\<close> chunks; chunk \<open>j\<close> holds, in
  their order, the items whose index is \<open>j\<close> modulo \<open>n\<close>; no chunk is empty; the sizes of
  any two chunks differ by at most 1; the chunks together hold the same items as the work
  list, with the same multiplicities; a future is submitted for every chunk.
\<close>

theorem round_robin_partition:
  fixes allItems :: "'a list" and W :: int
  assumes "1 \<le> length allItems" and "2 \<le> W"
  shows
    "length (make_chunks W allItems) = min (nat W) (length allItems) \<and>
     (\<forall>j < min (nat W) (length allItems).
        make_chunks W allItems ! j =
          map (\<lambda>i. allItems ! i)
            (filter (\<lambda>i. i mod min (nat W) (length allItems) = j) [0..<length allItems])) \<and>
     (\<forall>c \<in> set (make_chunks W allItems). c \<noteq> []) \<and>
     (\<forall>c \<in> set (make_chunks W allItems). \<forall>d \<in> set (make_chunks W allItems).
        length c \<le> length d + 1) \<and>
     mset (concat (make_chunks W allItems)) = mset allItems \<and>
     submitted (make_chunks W allItems) = [0..<min (nat W) (length allItems)]"
proof -
  define L where "L = length allItems"
  define n where "n = min (nat W) L"
  define chunks where "chunks = make_chunks W allItems"
  have n_eq: "nat (min W (int L)) = n" using assms unfolding n_def by linarith
  have n_pos: "0 < n" and n_le: "n \<le> L" using assms unfolding n_def L_def by linarith+
  have chunks_eq: "chunks = fold (chunk_append n) (enumerate 0 allItems) (replicate n [])"
    by (simp add: chunks_def make_chunks_def Let_def n_eq [unfolded L_def])
  have len: "length chunks = n"
    by (simp add: chunks_eq length_fold_chunk_append)
  have nth: "chunks ! j = map (\<lambda>i. allItems ! i) (filter (\<lambda>i. i mod n = j) [0..<L])"
    if "j < n" for j
    using that by (simp add: chunks_eq nth_fold_chunk_append round_robin_items L_def)
  have size: "length (chunks ! j) = L div n + (if j < L mod n then 1 else 0)" if "j < n" for j
    using that by (simp add: nth count_residue)
  have "1 \<le> L div n" using n_pos n_le by (simp add: Suc_le_eq div_greater_zero_iff)
  then have nonempty: "chunks ! j \<noteq> []" if "j < n" for j
    using size [OF that] by (cases "chunks ! j") auto
  have balanced: "length (chunks ! j) \<le> length (chunks ! k) + 1" if "j < n" "k < n" for j k
    using size [OF that(1)] size [OF that(2)] by (simp split: if_splits)
  have perm: "mset (concat chunks) = mset allItems"
    using n_pos by (simp add: chunks_eq mset_fold_chunk_append)
  have "\<forall>c \<in> set chunks. c \<noteq> []"
    using nonempty len by (auto simp: in_set_conv_nth)
  moreover have "\<forall>c \<in> set chunks. \<forall>d \<in> set chunks. length c \<le> length d + 1"
    using balanced len by (auto simp: in_set_conv_nth)
  moreover have "submitted chunks = [0..<n]"
    using nonempty len by (simp add: submitted_def)
  ultimately show ?thesis
    using len nth perm unfolding chunks_def n_def L_def by blast
qed

theorem round_robin_partition_witness:
  "1 \<le> length (map ascii [''a'', ''b'', ''c'', ''d'', ''e'', ''f'', ''g'']) \<and> (2::int) \<le> 5 \<and>
   make_chunks 5 (map ascii [''a'', ''b'', ''c'', ''d'', ''e'', ''f'', ''g'']) =
     [map ascii [''a'', ''f''], map ascii [''b'', ''g''], [ascii ''c''], [ascii ''d''],
      [ascii ''e'']] \<and>
   length (make_chunks 5 (map ascii [''a'', ''b'', ''c'', ''d'', ''e'', ''f'', ''g''])) =
     min (nat 5) (length (map ascii [''a'', ''b'', ''c'', ''d'', ''e'', ''f'', ''g''])) \<and>
   mset (concat (make_chunks 5 (map ascii [''a'', ''b'', ''c'', ''d'', ''e'', ''f'', ''g'']))) =
     mset (map ascii [''a'', ''b'', ''c'', ''d'', ''e'', ''f'', ''g''])"
proof -
  have a: "1 \<le> length (map ascii [''a'', ''b'', ''c'', ''d'', ''e'', ''f'', ''g''])" by simp
  have b: "(2::int) \<le> 5" by simp
  have c: "make_chunks 5 (map ascii [''a'', ''b'', ''c'', ''d'', ''e'', ''f'', ''g'']) =
     [map ascii [''a'', ''f''], map ascii [''b'', ''g''], [ascii ''c''], [ascii ''d''],
      [ascii ''e'']]"
    by code_simp
  show ?thesis
    using round_robin_partition [OF a b] a b c by blast
qed

text \<open>
  C2 (as amended). The rows handed to the writer are the concatenation of the batches, in
  the order the futures complete, sorted by the pair (Kod, CRN) with a stable sort: the keys
  ascend, and records with the same key keep the order they have in the concatenation. For
  two completion orders of the same batches the results hold the same records with the
  same multiplicities and the same sequence of keys; they are the same list when no two
  different records of the batches share their (Kod, CRN) pair.
\<close>

theorem merge_order:
  "sort_entries (collect_futures results) =
     sort_key sort_keyfn (concat (map batch_of results)) \<and>
   sorted (map sort_keyfn (sort_entries (collect_futures results))) \<and>
   (\<forall>k. filter (\<lambda>e. sort_keyfn e = k) (sort_entries (collect_futures results)) =
        filter (\<lambda>e. sort_keyfn e = k) (concat (map batch_of results))) \<and>
   (mset results' = mset results \<longrightarrow>
      mset (sort_entries (collect_futures results')) =
        mset (sort_entries (collect_futures results)) \<and>
      map sort_keyfn (sort_entries (collect_futures results')) =
        map sort_keyfn (sort_entries (collect_futures results))) \<and>
   (mset results' = mset results \<and> inj_on sort_keyfn (set (concat (map batch_of results))) \<longrightarrow>
      sort_entries (collect_futures results') = sort_entries (collect_futures results))"
proof -
  let ?all = "concat (map batch_of results)"
  let ?all' = "concat (map batch_of results')"
  have a: "sort_entries (collect_futures results) = sort_key sort_keyfn ?all"
    by (simp add: sort_entries_sort_key collect_futures_concat)
  have a': "sort_entries (collect_futures results') = sort_key sort_keyfn ?all'"
    by (simp add: sort_entries_sort_key collect_futures_concat)
  have b: "sorted (map sort_keyfn (sort_key sort_keyfn ?all))" by simp
  have c: "filter (\<lambda>e. sort_keyfn e = k) (sort_key sort_keyfn ?all) =
           filter (\<lambda>e. sort_keyfn e = k) ?all" for k
    by (rule sort_key_stable)
  have d: "mset (sort_key sort_keyfn ?all') = mset (sort_key sort_keyfn ?all)"
    if "mset results' = mset results"
    using mset_batches [OF that] by simp
  have e: "map sort_keyfn (sort_key sort_keyfn ?all') = map sort_keyfn (sort_key sort_keyfn ?all)"
    if "mset results' = mset results"
    using mset_batches [OF that] by (rule sort_key_perm_keys)
  have f: "sort_key sort_keyfn ?all' = sort_key sort_keyfn ?all"
    if "mset results' = mset results" "inj_on sort_keyfn (set ?all)"
    using mset_batches [OF that(1)] that(2) by (rule sort_key_perm_inj)
  show ?thesis
    unfolding a a' by (intro conjI allI impI refl b c d e f) auto
qed

theorem merge_order_witness:
  "mset [Inr [crn_100], Inr [crn_20] :: exn + entry list] = mset [Inr [crn_20], Inr [crn_100]] \<and>
   sort_keyfn crn_20 \<noteq> sort_keyfn crn_100 \<and>
   sort_entries (collect_futures [Inr [crn_100], Inr [crn_20]]) =
     sort_entries (collect_futures [Inr [crn_20], Inr [crn_100]]) \<and>
   sort_entries (collect_futures [Inr [crn_20], Inr [crn_100]]) = [crn_100, crn_20]"
proof -
  have p: "mset [Inr [crn_100], Inr [crn_20] :: exn + entry list] =
      mset [Inr [crn_20], Inr [crn_100]]"
    by simp
  have k: "sort_keyfn crn_20 \<noteq> sort_keyfn crn_100"
    by (simp add: crn_keys ascii_def)
  then have i: "inj_on sort_keyfn (set (concat (map batch_of [Inr [crn_20], Inr [crn_100]])))"
    by auto
  have s: "sort_entries (collect_futures [Inr [crn_20], Inr [crn_100]]) = [crn_100, crn_20]"
    by (simp add: collect_futures_concat crn_sorted)
  show ?thesis
    using merge_order [of "[Inr [crn_20], Inr [crn_100]]" "[Inr [crn_100], Inr [crn_20]]"] p k i s
    by blast
qed

text \<open>
  Counterexample to C2 as stated: two workers that each read a row with code ORT 100 and CRN 7
  but different titles give different final lists in the two completion orders.
\<close>

theorem completion_order_counterexample:
  "main_rows (fake_page same_key True) [] 2 [ascii ''AKM'', ascii ''BLG''] fresh_sessions [0, 1] =
     Inr [make_entry ortak_a, make_entry ortak_b] \<and>
   main_rows (fake_page same_key True) [] 2 [ascii ''AKM'', ascii ''BLG''] fresh_sessions [1, 0] =
     Inr [make_entry ortak_b, make_entry ortak_a] \<and>
   main_rows (fake_page same_key True) [] 2 [ascii ''AKM'', ascii ''BLG''] fresh_sessions [0, 1] \<noteq>
   main_rows (fake_page same_key True) [] 2 [ascii ''AKM'', ascii ''BLG''] fresh_sessions [1, 0] \<and>
   sort_entries (collect_futures [Inr [make_entry ortak_a], Inr [make_entry ortak_b]]) \<noteq>
   sort_entries (collect_futures [Inr [make_entry ortak_b], Inr [make_entry ortak_a]])"
proof -
  have a: "main_rows (fake_page same_key True) [] 2 [ascii ''AKM'', ascii ''BLG''] fresh_sessions
      [0, 1] = Inr [make_entry ortak_a, make_entry ortak_b]"
    by (simp add: fake_main_parallel ortak_tables collect_futures_concat ortak_sorted)
  have b: "main_rows (fake_page same_key True) [] 2 [ascii ''AKM'', ascii ''BLG''] fresh_sessions
      [1, 0] = Inr [make_entry ortak_b, make_entry ortak_a]"
    by (simp add: fake_main_parallel ortak_tables collect_futures_concat ortak_sorted)
  have c: "sort_entries (collect_futures [Inr [make_entry ortak_a], Inr [make_entry ortak_b]]) \<noteq>
      sort_entries (collect_futures [Inr [make_entry ortak_b], Inr [make_entry ortak_a]])"
    using ortak_differ by (simp add: collect_futures_concat ortak_sorted)
  show ?thesis unfolding a b using c ortak_differ by simp
qed

text \<open>
  C3. For an item of a worker's chunk, each of the three phases (selecting the code,
  clicking the show button, reading the table) is tried up to 3 times, a staleness error
  leading to another try of the same phase only. If in every phase the staleness clears
  within the 3 tries, the item yields the records of the table read. If a phase raises
  staleness 3 times, the item yields nothing, after exactly those 3 tries of the phase. In
  every case the worker goes on: once the set-up has succeeded the worker returns a batch,
  and the selection of every code of the chunk is attempted.
\<close>

theorem staleness_retry_budget:
  "(j1 < 3 \<and> stale_run j1 (select_attempt P k) w = Some a1 \<and>
      select_attempt P k a1 = (Inr (), b1) \<and>
    j2 < 3 \<and> stale_run j2 (click_attempt P) b1 = Some a2 \<and>
      click_attempt P a2 = (Inr (), b2) \<and>
    j3 < 3 \<and> stale_run j3 (read_attempt P) b2 = Some a3 \<and>
      read_attempt P a3 = (Inr rows, b3) \<longrightarrow>
      scrape_item P ex k (entries, w) = (entries @ table_entries ex rows, b3)) \<and>
   (stale_run 3 (select_attempt P k) w = Some c1 \<longrightarrow>
      scrape_item P ex k (entries, w) = (entries, c1) \<and>
      trace c1 = trace w @ replicate 3 (SelectCode k, Raised StaleElementReferenceException)) \<and>
   (j1 < 3 \<and> stale_run j1 (select_attempt P k) w = Some a1 \<and>
      select_attempt P k a1 = (Inr (), b1) \<and>
    stale_run 3 (click_attempt P) b1 = Some c2 \<longrightarrow>
      scrape_item P ex k (entries, w) = (entries, c2) \<and>
      trace c2 = trace b1 @ replicate 3 (ClickShow, Raised StaleElementReferenceException)) \<and>
   (j1 < 3 \<and> stale_run j1 (select_attempt P k) w = Some a1 \<and>
      select_attempt P k a1 = (Inr (), b1) \<and>
    j2 < 3 \<and> stale_run j2 (click_attempt P) b1 = Some a2 \<and>
      click_attempt P a2 = (Inr (), b2) \<and>
    stale_run 3 (read_attempt P) b2 = Some c3 \<longrightarrow>
      scrape_item P ex k (entries, w) = (entries, c3) \<and>
      trace c3 = trace b2 @ replicate 3 (ReadTable, Raised StaleElementReferenceException)) \<and>
   (scrape_setup P w0 = (Inr (), w1) \<longrightarrow>
      (\<exists>es. fst (scrape_body P ex chunk w0) = Inr es) \<and>
      (\<forall>k' \<in> set chunk. \<exists>out.
         (SelectCode k', out) \<in>
           set (drop (length (trace w0)) (trace (snd (scrape_body P ex chunk w0))))))"
proof -
  have sel: "select_course_code P k 3 w = (Inr True, b1)"
    if "j1 < 3" "stale_run j1 (select_attempt P k) w = Some a1"
      "select_attempt P k a1 = (Inr (), b1)"
    using that by (rule select_ok)
  have clk: "click_show P 3 b1 = (Inr True, b2)"
    if "j2 < 3" "stale_run j2 (click_attempt P) b1 = Some a2" "click_attempt P a2 = (Inr (), b2)"
    using that by (rule click_ok)
  have rd: "collect_course_entries P ex k 3 b2 = (Inr (table_entries ex rows), b3)"
    if "j3 < 3" "stale_run j3 (read_attempt P) b2 = Some a3" "read_attempt P a3 = (Inr rows, b3)"
    using that by (rule read_ok)
  have A: "scrape_item P ex k (entries, w) = (entries @ table_entries ex rows, b3)"
    if "j1 < 3" "stale_run j1 (select_attempt P k) w = Some a1"
      "select_attempt P k a1 = (Inr (), b1)"
      "j2 < 3" "stale_run j2 (click_attempt P) b1 = Some a2" "click_attempt P a2 = (Inr (), b2)"
      "j3 < 3" "stale_run j3 (read_attempt P) b2 = Some a3" "read_attempt P a3 = (Inr rows, b3)"
    using sel [OF that(1-3)] clk [OF that(4-6)] rd [OF that(7-9)] by (rule scrape_item_ok)
  have B: "scrape_item P ex k (entries, w) = (entries, c1)"
    "trace c1 = trace w @ replicate 3 (SelectCode k, Raised StaleElementReferenceException)"
    if "stale_run 3 (select_attempt P k) w = Some c1"
  proof -
    from that show "scrape_item P ex k (entries, w) = (entries, c1)"
      by (intro scrape_item_no_select select_exhausted)
    from that show "trace c1 =
        trace w @ replicate 3 (SelectCode k, Raised StaleElementReferenceException)"
      unfolding select_attempt_def by (rule stale_run_trace)
  qed
  have C: "scrape_item P ex k (entries, w) = (entries, c2)"
    "trace c2 = trace b1 @ replicate 3 (ClickShow, Raised StaleElementReferenceException)"
    if "j1 < 3" "stale_run j1 (select_attempt P k) w = Some a1"
      "select_attempt P k a1 = (Inr (), b1)" "stale_run 3 (click_attempt P) b1 = Some c2"
  proof -
    from sel [OF that(1-3)] click_exhausted [OF that(4)]
    show "scrape_item P ex k (entries, w) = (entries, c2)" by (rule scrape_item_no_click)
    from that(4) show "trace c2 =
        trace b1 @ replicate 3 (ClickShow, Raised StaleElementReferenceException)"
      unfolding click_attempt_def by (rule stale_run_trace)
  qed
  have D: "scrape_item P ex k (entries, w) = (entries, c3)"
    "trace c3 = trace b2 @ replicate 3 (ReadTable, Raised StaleElementReferenceException)"
    if "j1 < 3" "stale_run j1 (select_attempt P k) w = Some a1"
      "select_attempt P k a1 = (Inr (), b1)"
      "j2 < 3" "stale_run j2 (click_attempt P) b1 = Some a2" "click_attempt P a2 = (Inr (), b2)"
      "stale_run 3 (read_attempt P) b2 = Some c3"
  proof -
    from scrape_item_ok [OF sel [OF that(1-3)] clk [OF that(4-6)] read_exhausted [OF that(7)]]
    show "scrape_item P ex k (entries, w) = (entries, c3)" by simp
    from that(7) show "trace c3 =
        trace b2 @ replicate 3 (ReadTable, Raised StaleElementReferenceException)"
      unfolding read_attempt_def by (rule stale_run_trace)
  qed
  have E: "\<exists>es. fst (scrape_body P ex chunk w0) = Inr es"
    "\<forall>k' \<in> set chunk. \<exists>out.
        (SelectCode k', out) \<in>
          set (drop (length (trace w0)) (trace (snd (scrape_body P ex chunk w0))))"
    if "scrape_setup P w0 = (Inr (), w1)"
  proof -
    from that show r: "\<exists>es. fst (scrape_body P ex chunk w0) = Inr es"
      by (simp add: scrape_body_def split: prod.splits)
    obtain rb wb where b: "scrape_body P ex chunk w0 = (rb, wb)"
      by (cases "scrape_body P ex chunk w0")
    from scrape_body_summary [OF b] r b obtain new where "trace wb = trace w0 @ new"
      "\<forall>k' \<in> set chunk. \<exists>out. (SelectCode k', out) \<in> set new"
      by auto
    then show "\<forall>k' \<in> set chunk. \<exists>out.
        (SelectCode k', out) \<in>
          set (drop (length (trace w0)) (trace (snd (scrape_body P ex chunk w0))))"
      by (simp add: b)
  qed
  show ?thesis
    by (intro conjI impI; (elim conjE)?) (rule A B C D E; assumption)+
qed

theorem staleness_retry_budget_witness:
  "scrape_item (fake_page akm_blg True) [] (ascii ''AKM'') ([], fresh 2 0 0) =
     ([] @ table_entries [] (akm_blg (ascii ''AKM'')),
      fake_world (ascii ''AKM'') 0 0 0
        (replicate 2 (SelectCode (ascii ''AKM''), Raised StaleElementReferenceException) @
         [(SelectCode (ascii ''AKM''), Done), (ClickShow, Done),
          (ReadTable, Table (akm_blg (ascii ''AKM'')))])) \<and>
   length (table_entries [] (akm_blg (ascii ''AKM''))) = 2 \<and>
   scrape_item (fake_page akm_blg True) [] (ascii ''AKM'') ([], fresh 4 0 0) =
     ([], fake_world [] 1 0 0
        (replicate 3 (SelectCode (ascii ''AKM''), Raised StaleElementReferenceException))) \<and>
   scrape_item (fake_page akm_blg True) [] (ascii ''AKM'') ([], fresh 0 3 0) =
     ([], fake_world (ascii ''AKM'') 0 0 0
        ([(SelectCode (ascii ''AKM''), Done)] @
         replicate 3 (ClickShow, Raised StaleElementReferenceException))) \<and>
   scrape_item (fake_page akm_blg True) [] (ascii ''AKM'') ([], fresh 0 0 3) =
     ([], fake_world (ascii ''AKM'') 0 0 0
        ([(SelectCode (ascii ''AKM''), Done), (ClickShow, Done)] @
         replicate 3 (ReadTable, Raised StaleElementReferenceException))) \<and>
   fst (scrape_body (fake_page akm_blg True) [] [ascii ''AKM'', ascii ''BLG''] (fresh 4 0 0)) =
     Inr (table_entries [] (akm_blg (ascii ''BLG''))) \<and>
   (\<exists>out. (SelectCode (ascii ''BLG''), out) \<in>
      set (drop (length (trace (fresh 4 0 0)))
        (trace (snd (scrape_body (fake_page akm_blg True) [] [ascii ''AKM'', ascii ''BLG'']
          (fresh 4 0 0))))))"
proof -
  let ?P = "fake_page akm_blg True"
  let ?k = "ascii ''AKM''"
  let ?sel = "(SelectCode ?k, Raised StaleElementReferenceException)"
  let ?clk = "(ClickShow, Raised StaleElementReferenceException)"
  let ?rd = "(ReadTable, Raised StaleElementReferenceException)"
  have lt: "(2::nat) < 3" "(0::nat) < 3" by simp_all
  \<comment> \<open>two staleness errors on the selection, then success\<close>
  let ?a1 = "fake_world [] 0 0 0 (replicate 2 ?sel)"
  let ?b1 = "fake_world ?k 0 0 0 (replicate 2 ?sel @ [(SelectCode ?k, Done)])"
  let ?b2 = "fake_world ?k 0 0 0 (replicate 2 ?sel @ [(SelectCode ?k, Done), (ClickShow, Done)])"
  let ?b3 = "fake_world ?k 0 0 0 (replicate 2 ?sel @
      [(SelectCode ?k, Done), (ClickShow, Done), (ReadTable, Table (akm_blg ?k))])"
  have a1: "stale_run 2 (select_attempt ?P ?k) (fresh 2 0 0) = Some ?a1"
    using fake_stale_select [of 2 2 akm_blg True ?k "[]" 0 0 "[]"] by (simp add: fresh_def)
  have a2: "select_attempt ?P ?k ?a1 = (Inr (), ?b1)" by (simp add: fake_select_attempt)
  have a3: "stale_run 0 (click_attempt ?P) ?b1 = Some ?b1" by simp
  have a4: "click_attempt ?P ?b1 = (Inr (), ?b2)" by (simp add: fake_click_attempt)
  have a5: "stale_run 0 (read_attempt ?P) ?b2 = Some ?b2" by simp
  have a6: "read_attempt ?P ?b2 = (Inr (akm_blg ?k), ?b3)" by (simp add: fake_read_attempt)
  have A: "scrape_item ?P [] ?k ([], fresh 2 0 0) = ([] @ table_entries [] (akm_blg ?k), ?b3)"
    using staleness_retry_budget [where ?j1.0 = 2 and P = ?P and k = ?k and w = "fresh 2 0 0"
        and ?a1.0 = ?a1 and ?b1.0 = ?b1 and ?j2.0 = 0 and ?a2.0 = ?b1 and ?b2.0 = ?b2
        and ?j3.0 = 0 and ?a3.0 = ?b2 and rows = "akm_blg ?k" and ?b3.0 = ?b3 and ex = "[]"
        and entries = "[]"]
      lt a1 a2 a3 a4 a5 a6
    by blast
  have A': "length (table_entries [] (akm_blg ?k)) = 2"
    by (simp add: akm_blg_tables)
  \<comment> \<open>four staleness errors on the selection: the budget of three is used up\<close>
  let ?c1 = "fake_world [] 1 0 0 (replicate 3 ?sel)"
  have b1: "stale_run 3 (select_attempt ?P ?k) (fresh 4 0 0) = Some ?c1"
    using fake_stale_select [of 3 4 akm_blg True ?k "[]" 0 0 "[]"] by (simp add: fresh_def)
  have B: "scrape_item ?P [] ?k ([], fresh 4 0 0) = ([], ?c1)"
    using staleness_retry_budget [where P = ?P and k = ?k and w = "fresh 4 0 0"
        and ?c1.0 = ?c1 and ex = "[]" and entries = "[]"] b1
    by blast
  \<comment> \<open>three staleness errors on the click\<close>
  let ?d1 = "fake_world ?k 0 3 0 [(SelectCode ?k, Done)]"
  let ?c2 = "fake_world ?k 0 0 0 ([(SelectCode ?k, Done)] @ replicate 3 ?clk)"
  have c1: "stale_run 0 (select_attempt ?P ?k) (fresh 0 3 0) = Some (fresh 0 3 0)" by simp
  have c2: "select_attempt ?P ?k (fresh 0 3 0) = (Inr (), ?d1)"
    by (simp add: fresh_def fake_select_attempt)
  have c3: "stale_run 3 (click_attempt ?P) ?d1 = Some ?c2"
    using fake_stale_click [of 3 3 akm_blg True ?k 0 0 "[(SelectCode ?k, Done)]"] by simp
  have C: "scrape_item ?P [] ?k ([], fresh 0 3 0) = ([], ?c2)"
    using staleness_retry_budget [where ?j1.0 = 0 and P = ?P and k = ?k and w = "fresh 0 3 0"
        and ?a1.0 = "fresh 0 3 0" and ?b1.0 = ?d1 and ?c2.0 = ?c2 and ex = "[]"
        and entries = "[]"]
      lt c1 c2 c3
    by blast
  \<comment> \<open>three staleness errors on the table read\<close>
  let ?e1 = "fake_world ?k 0 0 3 [(SelectCode ?k, Done)]"
  let ?e2 = "fake_world ?k 0 0 3 [(SelectCode ?k, Done), (ClickShow, Done)]"
  let ?c3 = "fake_world ?k 0 0 0 ([(SelectCode ?k, Done), (ClickShow, Done)] @ replicate 3 ?rd)"
  have d1: "stale_run 0 (select_attempt ?P ?k) (fresh 0 0 3) = Some (fresh 0 0 3)" by simp
  have d2: "select_attempt ?P ?k (fresh 0 0 3) = (Inr (), ?e1)"
    by (simp add: fresh_def fake_select_attempt)
  have d3: "stale_run 0 (click_attempt ?P) ?e1 = Some ?e1" by simp
  have d4: "click_attempt ?P ?e1 = (Inr (), ?e2)" by (simp add: fake_click_attempt)
  have d5: "stale_run 3 (read_attempt ?P) ?e2 = Some ?c3"
    using fake_stale_read [of 3 3 akm_blg True ?k 0 0 "[(SelectCode ?k, Done), (ClickShow, Done)]"]
    by simp
  have D: "scrape_item ?P [] ?k ([], fresh 0 0 3) = ([], ?c3)"
    using staleness_retry_budget [where ?j1.0 = 0 and P = ?P and k = ?k and w = "fresh 0 0 3"
        and ?a1.0 = "fresh 0 0 3" and ?b1.0 = ?e1 and ?j2.0 = 0 and ?a2.0 = ?e1 and ?b2.0 = ?e2
        and ?c3.0 = ?c3 and ex = "[]" and entries = "[]"]
      lt d1 d2 d3 d4 d5
    by blast
  \<comment> \<open>the worker goes on with the next code\<close>
  have e1: "scrape_setup ?P (fresh 4 0 0) =
      (Inr (), fake_world [] 4 0 0 [(Get, Done), (SetLevel, Done)])"
    by (simp add: fresh_def fake_setup)
  have E: "fst (scrape_body ?P [] [?k, ascii ''BLG''] (fresh 4 0 0)) =
      Inr (table_entries [] (akm_blg (ascii ''BLG'')))"
    by (simp add: fake_body_four_faults)
  have E': "\<exists>out. (SelectCode (ascii ''BLG''), out) \<in>
      set (drop (length (trace (fresh 4 0 0)))
        (trace (snd (scrape_body ?P [] [?k, ascii ''BLG''] (fresh 4 0 0)))))"
    using staleness_retry_budget [where P = ?P and ?w0.0 = "fresh 4 0 0"
        and ?w1.0 = "fake_world [] 4 0 0 [(Get, Done), (SetLevel, Done)]" and ex = "[]"
        and chunk = "[?k, ascii ''BLG'']"] e1
    by simp
  show ?thesis
    using A A' B C D E E' by (intro conjI)
qed

text \<open>
  C4. The delivery-mode field of a record (built from a row of at least 14 cells) is made
  from the fourth cell of the row: after
  normalisation by \<^const>\<open>clean_text\<close>, the value "Fiziksel (Yuz yuze)" (with u-umlaut,
  \<^const>\<open>fiziksel_raw\<close>) becomes "Fiziksel", the value "Sanal (Cevrimici/Online)" (with
  C-cedilla and c-cedilla, \<^const>\<open>sanal_raw\<close>) becomes "Online", and every other
  normalised value is stored as it is.
\<close>

theorem delivery_mode_mapping:
  assumes "14 \<le> length cells"
  shows
    "(clean_text (cells ! 3) = fiziksel_raw \<longrightarrow>
        dict_get (make_entry cells) Ogretim_Yontemi d = ascii ''Fiziksel'') \<and>
     (clean_text (cells ! 3) = sanal_raw \<longrightarrow>
        dict_get (make_entry cells) Ogretim_Yontemi d = ascii ''Online'') \<and>
     (clean_text (cells ! 3) \<noteq> fiziksel_raw \<and> clean_text (cells ! 3) \<noteq> sanal_raw \<longrightarrow>
        dict_get (make_entry cells) Ogretim_Yontemi d = clean_text (cells ! 3))"
proof -
  have "fiziksel_raw \<noteq> sanal_raw"
    by (simp add: raw_code_points)
  then show ?thesis
    by (simp add: dict_get_def make_entry_def Let_def)
qed

theorem delivery_mode_mapping_witness:
  "14 \<le> length (sample_row ''10'' ''AKM 101'' ''Statik'' ([32] @ fiziksel_raw @ [10])) \<and>
   clean_text (sample_row ''10'' ''AKM 101'' ''Statik'' ([32] @ fiziksel_raw @ [10]) ! 3)
     = fiziksel_raw \<and>
   dict_get (make_entry (sample_row ''10'' ''AKM 101'' ''Statik'' ([32] @ fiziksel_raw @ [10])))
     Ogretim_Yontemi [] = ascii ''Fiziksel'' \<and>
   clean_text (sample_row ''10'' ''AKM 101'' ''Statik'' (sanal_raw @ [32, 32]) ! 3) = sanal_raw \<and>
   dict_get (make_entry (sample_row ''10'' ''AKM 101'' ''Statik'' (sanal_raw @ [32, 32])))
     Ogretim_Yontemi [] = ascii ''Online'' \<and>
   clean_text (sample_row ''10'' ''AKM 101'' ''Statik'' (ascii '' Hibrit '') ! 3)
     = ascii ''Hibrit'' \<and>
   ascii ''Hibrit'' \<noteq> fiziksel_raw \<and> ascii ''Hibrit'' \<noteq> sanal_raw \<and>
   dict_get (make_entry (sample_row ''10'' ''AKM 101'' ''Statik'' (ascii '' Hibrit '')))
     Ogretim_Yontemi [] = ascii ''Hibrit''"
proof -
  have len: "14 \<le> length (sample_row crn kod ders mode)" for crn kod ders mode
    by (simp add: sample_row_def)
  have ne: "ascii ''Hibrit'' \<noteq> fiziksel_raw" "ascii ''Hibrit'' \<noteq> sanal_raw"
    by (simp_all add: raw_code_points ascii_def)
  then show ?thesis
    using
      delivery_mode_mapping
        [OF len, of "''10''" "''AKM 101''" "''Statik''" "[32] @ fiziksel_raw @ [10]" "[]"]
      delivery_mode_mapping
        [OF len, of "''10''" "''AKM 101''" "''Statik''" "sanal_raw @ [32, 32]" "[]"]
      delivery_mode_mapping
        [OF len, of "''10''" "''AKM 101''" "''Statik''" "ascii '' Hibrit ''" "[]"]
      len [of "''10''" "''AKM 101''" "''Statik''" "[32] @ fiziksel_raw @ [10]"]
    by (simp only: sample_row_mode clean_text_examples) simp
qed

text \<open>
  C5. When a table is read, a row with fewer than 14 cells gives no record and is no
  error: the read returns normally, with the records of the rows before the short row
  followed by the records of the rows after it.
\<close>

theorem short_row_skipped:
  assumes "length cells < 14"
    and "read_attempt P w = (Inr (header # before @ cells # after), w')"
  shows "collect_course_entries P ex k (Suc n) w =
           (Inr (rows_loop ex before [] @ rows_loop ex after []), w')"
  using assms by (simp add: rows_loop_eq kept_def)

theorem short_row_skipped_witness:
  "length [ascii ''bos''] < 14 \<and>
   read_attempt (fake_page akm_blg True) akm_selected =
     (Inr ([] # [sample_row ''10'' ''AKM 101'' ''Statik'' []] @ [ascii ''bos'']
              # [sample_row ''11'' ''AKM 101'' ''Statik'' []]),
      snd (read_attempt (fake_page akm_blg True) akm_selected)) \<and>
   collect_course_entries (fake_page akm_blg True) [] (ascii ''AKM'') 3 akm_selected =
     (Inr (rows_loop [] [sample_row ''10'' ''AKM 101'' ''Statik'' []] [] @
           rows_loop [] [sample_row ''11'' ''AKM 101'' ''Statik'' []] []),
      snd (read_attempt (fake_page akm_blg True) akm_selected)) \<and>
   length (rows_loop [] [sample_row ''10'' ''AKM 101'' ''Statik'' []] [] @
           rows_loop [] [sample_row ''11'' ''AKM 101'' ''Statik'' []] []) = 2"
proof -
  have short: "length [ascii ''bos''] < 14" by simp
  have two: "length (rows_loop [] [sample_row ''10'' ''AKM 101'' ''Statik'' []] [] @
           rows_loop [] [sample_row ''11'' ''AKM 101'' ''Statik'' []] []) = 2"
    by (simp add: sample_row_def Let_def)
  have three: "Suc 2 = 3" by simp
  show ?thesis
    using short akm_read two
      short_row_skipped [OF short akm_read, of "[]" "ascii ''AKM''" 2]
    by (simp only: three simp_thms)
qed

text \<open>
  C6. No record whose normalised code (its Kod field) is in the list of excluded codes is
  in the list a worker returns, nor in the rows \<^const>\<open>main_rows\<close> hands to the
  writer, whatever the session does and however many rows carry that code.
\<close>

theorem excluded_never_output:
  "(scrape_chunk P ex chunk w = (Inr entries, w') \<longrightarrow>
      (\<forall>e \<in> set entries. dict_get e Kod [] \<notin> set ex)) \<and>
   (main_rows P ex W codes init order = Inr rows \<longrightarrow>
      (\<forall>e \<in> set rows. dict_get e Kod [] \<notin> set ex))"
  using scrape_chunk_not_excluded main_rows_not_excluded by blast

theorem excluded_never_output_witness:
  "scrape_chunk (fake_page akm_blg True) [ascii ''AKM 101''] [ascii ''AKM'', ascii ''BLG'']
       (fresh 0 0 0) =
     (Inr [make_entry (sample_row ''5'' ''BLG 102'' ''Programlama'' [])],
      snd (scrape_chunk (fake_page akm_blg True) [ascii ''AKM 101'']
        [ascii ''AKM'', ascii ''BLG''] (fresh 0 0 0))) \<and>
   main_rows (fake_page akm_blg True) [ascii ''AKM 101''] 1 [ascii ''AKM'', ascii ''BLG'']
       fresh_sessions [] =
     Inr [make_entry (sample_row ''5'' ''BLG 102'' ''Programlama'' [])] \<and>
   dict_get (make_entry (sample_row ''5'' ''BLG 102'' ''Programlama'' [])) Kod []
     \<notin> set [ascii ''AKM 101'']"
proof -
  let ?P = "fake_page akm_blg True" and ?ex = "[ascii ''AKM 101'']"
  let ?chunk = "[ascii ''AKM'', ascii ''BLG'']"
  let ?blg = "make_entry (sample_row ''5'' ''BLG 102'' ''Programlama'' [])"
  have "fst (scrape_chunk ?P ?ex ?chunk (fresh 0 0 0)) = Inr [?blg]"
    by (simp add: fake_chunk_ok akm_blg_tables)
  then have a: "scrape_chunk ?P ?ex ?chunk (fresh 0 0 0) =
      (Inr [?blg], snd (scrape_chunk ?P ?ex ?chunk (fresh 0 0 0)))"
    by (simp add: prod_eq_iff)
  have b: "main_rows ?P ?ex 1 ?chunk fresh_sessions [] = Inr [?blg]"
    by (simp add: fake_main_single akm_blg_tables sort_entries_single)
  from excluded_never_output
    [of ?P ?ex ?chunk "fresh 0 0 0" "[?blg]" "snd (scrape_chunk ?P ?ex ?chunk (fresh 0 0 0))"
      1 ?chunk fresh_sessions "[]" "[?blg]"] a b
  have "dict_get ?blg Kod [] \<notin> set ?ex" by simp
  with a b show ?thesis by simp
qed




text \<open>
  C8. The field normalisation \<^const>\<open>clean_text\<close> (trim surrounding whitespace, then
  replace every embedded line feed by the separator \<^verbatim>\<open>" / "\<close>) is idempotent: for every
  string, normalising an already normalised value changes nothing.
\<close>

theorem clean_text_idempotent: "clean_text (clean_text s) = clean_text s"
proof -
  let ?t = "strip s"
  let ?u = "replace_newline ?t"
  have ends: "?u = [] \<or> (\<not> isspace (hd ?u) \<and> \<not> isspace (last ?u))"
  proof (cases "?t = []")
    case True
    then show ?thesis by (simp add: replace_newline_def)
  next
    case False
    with strip_ends [of s] have h: "\<not> isspace (hd ?t)" and l: "\<not> isspace (last ?t)"
      by auto
    from h isspace_newline have "hd ?t \<noteq> 10" by auto
    with False have "hd ?u = hd ?t" by (simp add: hd_replace_newline)
    moreover from l isspace_newline have "last ?t \<noteq> 10" by auto
    with False have "last ?u = last ?t" by (simp add: last_replace_newline)
    ultimately show ?thesis using h l by simp
  qed
  then have "strip ?u = ?u" by (rule strip_fixed)
  moreover have "replace_newline ?u = ?u"
    by (rule replace_newline_fixed) (rule replace_newline_no_newline)
  ultimately show ?thesis by (simp add: clean_text_def)
qed

text \<open>
  C9. The final sort compares Kod and CRN as strings, lexicographically by code point: of
  two records with the same Kod, the one whose CRN is lexicographically smaller stands
  before the other in the sorted list, so CRN "100" stands before CRN "20".
\<close>

theorem sort_is_lexicographic:
  assumes "r1 \<in> set all_entries" and "r2 \<in> set all_entries"
    and "dict_get r1 Kod [] = dict_get r2 Kod []"
    and "(dict_get r1 CRN [], dict_get r2 CRN []) \<in> lexord {(a, b). a < b}"
  shows "(\<exists>i j. i < j \<and> j < length (sort_entries all_entries) \<and>
            sort_entries all_entries ! i = r1 \<and> sort_entries all_entries ! j = r2) \<and>
         (\<forall>i j. i < length (sort_entries all_entries) \<and> j < length (sort_entries all_entries) \<and>
            sort_entries all_entries ! i = r1 \<and> sort_entries all_entries ! j = r2 \<longrightarrow> i < j)"
proof -
  let ?res = "sort_entries all_entries"
  have res: "?res = sort_key sort_keyfn all_entries" by (rule sort_entries_sort_key)
  have less: "sort_keyfn r1 < sort_keyfn r2"
    using assms(3,4) by (simp add: sort_keyfn_def list_less_def)
  have sorted: "sorted (map sort_keyfn ?res)" by (simp add: res)
  have before: "i < j" if "i < length ?res" "j < length ?res" "?res ! i = r1" "?res ! j = r2"
    for i j
  proof (rule ccontr)
    assume "\<not> i < j"
    then have "j \<le> i" by simp
    with sorted that(1) have "map sort_keyfn ?res ! j \<le> map sort_keyfn ?res ! i"
      by (simp add: sorted_iff_nth_mono del: nth_map)
    with that less show False by simp
  qed
  from assms(1,2) have "r1 \<in> set ?res" "r2 \<in> set ?res" by (simp_all add: res)
  then obtain i j where ij: "i < length ?res" "?res ! i = r1" "j < length ?res" "?res ! j = r2"
    by (auto simp: in_set_conv_nth)
  with before have "i < j" by blast
  with ij before show ?thesis by blast
qed

theorem sort_is_lexicographic_witness:
  "crn_100 \<in> set [crn_20, crn_100] \<and> crn_20 \<in> set [crn_20, crn_100] \<and>
   dict_get crn_100 Kod [] = dict_get crn_20 Kod [] \<and>
   dict_get crn_100 CRN [] = ascii ''100'' \<and> dict_get crn_20 CRN [] = ascii ''20'' \<and>
   (ascii ''100'', ascii ''20'') \<in> lexord {(a, b). a < b} \<and>
   sort_entries [crn_20, crn_100] = [crn_100, crn_20] \<and>
   (\<exists>i j. i < j \<and> j < length (sort_entries [crn_20, crn_100]) \<and>
      sort_entries [crn_20, crn_100] ! i = crn_100 \<and> sort_entries [crn_20, crn_100] ! j = crn_20)"
proof -
  have m: "crn_100 \<in> set [crn_20, crn_100]" "crn_20 \<in> set [crn_20, crn_100]" by simp_all
  have kod: "dict_get crn_100 Kod [] = dict_get crn_20 Kod []"
    by (simp add: crn_20_def crn_100_def get_Kod sample_row_cells)
  have crn: "dict_get crn_100 CRN [] = ascii ''100''" "dict_get crn_20 CRN [] = ascii ''20''"
    by (simp_all add: crn_20_def crn_100_def get_CRN sample_row_cells clean_text_plain)
  have lex: "(dict_get crn_100 CRN [], dict_get crn_20 CRN []) \<in> lexord {(a, b). a < b}"
    unfolding crn by (rule crn_order)
  show ?thesis
    using sort_is_lexicographic [OF m kod lex] m kod crn crn_order crn_sorted by blast
qed

text \<open>
  C10 (as amended). No stage removes duplicates. Reading a table makes exactly one record,
  in order, for every row below the header row that has at least 14 cells and whose
  normalised code is not excluded, so the record of such a row is there at least as often
  as the table shows the row. The batch a worker returns is the concatenation of these
  records over the tables it read, in order. The merged and sorted result holds the
  records of the batches of the futures, with the same multiplicities, the batch of a
  future that raised being empty.
\<close>

theorem no_deduplication:
  "rows_loop ex (drop 1 rows) [] = map make_entry (filter (kept ex) (drop 1 rows)) \<and>
   length (rows_loop ex (drop 1 rows) []) = length (filter (kept ex) (drop 1 rows)) \<and>
   (kept ex r \<longrightarrow>
      count (mset (drop 1 rows)) r \<le> count (mset (rows_loop ex (drop 1 rows) [])) (make_entry r)) \<and>
   (scrape_chunk P ex chunk w = (Inr entries, w') \<longrightarrow>
      concat (map (\<lambda>rows. map make_entry (filter (kept ex) (drop 1 rows)))
          (tables_read (trace w'))) =
        concat (map (\<lambda>rows. map make_entry (filter (kept ex) (drop 1 rows)))
          (tables_read (trace w))) @ entries) \<and>
   mset (sort_entries (collect_futures results)) = mset (concat (map batch_of results)) \<and>
   batch_of (Inl e) = [] \<and>
   (main_rows P ex W codes init order = Inr final \<longrightarrow>
      mset final =
        (if codes = [] then {#}
         else if W \<le> 1 then mset (batch_of (fst (scrape_chunk P ex codes (init 0))))
         else mset (concat (map
           (\<lambda>i. batch_of (fst (scrape_chunk P ex (make_chunks W codes ! i) (init i))))
           order))))"
proof -
  have a: "rows_loop ex (drop 1 rows) [] = map make_entry (filter (kept ex) (drop 1 rows))"
    by (simp add: rows_loop_eq)
  have a1: "length (rows_loop ex (drop 1 rows) []) = length (filter (kept ex) (drop 1 rows))"
    by (simp add: rows_loop_eq)
  have a2: "count (mset (drop 1 rows)) r \<le>
      count (mset (rows_loop ex (drop 1 rows) [])) (make_entry r)" if "kept ex r"
    unfolding a using that by (rule count_kept)
  have b: "concat (map (\<lambda>rows. map make_entry (filter (kept ex) (drop 1 rows)))
          (tables_read (trace w'))) =
        concat (map (\<lambda>rows. map make_entry (filter (kept ex) (drop 1 rows)))
          (tables_read (trace w))) @ entries"
    if "scrape_chunk P ex chunk w = (Inr entries, w')"
    using scrape_chunk_entries [OF that] by (simp add: table_entries_def [abs_def])
  have c: "mset (sort_entries (collect_futures results)) = mset (concat (map batch_of results))"
    by (simp add: sort_entries_sort_key collect_futures_concat)
  have d: "batch_of (Inl e) = []" by simp
  show ?thesis
    using a a1 a2 b c d main_rows_mset by (intro conjI impI)
qed

theorem no_deduplication_witness:
  "kept [] (sample_row ''10'' ''AKM 101'' ''Statik'' []) \<and>
   count (mset (drop 1 (twice (ascii ''AKM'')))) (sample_row ''10'' ''AKM 101'' ''Statik'' []) = 2 \<and>
   2 \<le> count (mset (rows_loop [] (drop 1 (twice (ascii ''AKM''))) []))
     (make_entry (sample_row ''10'' ''AKM 101'' ''Statik'' [])) \<and>
   main_rows (fake_page twice True) [] 1 [ascii ''AKM''] fresh_sessions [] =
     Inr [make_entry (sample_row ''10'' ''AKM 101'' ''Statik'' []),
          make_entry (sample_row ''10'' ''AKM 101'' ''Statik'' [])] \<and>
   mset [make_entry (sample_row ''10'' ''AKM 101'' ''Statik'' []),
         make_entry (sample_row ''10'' ''AKM 101'' ''Statik'' [])] =
     mset (batch_of (fst (scrape_chunk (fake_page twice True) [] [ascii ''AKM'']
       (fresh_sessions 0)))) \<and>
   batch_of (fst (scrape_chunk (fake_page twice True) [] [ascii ''AKM''] (fresh_sessions 0))) =
     map make_entry (filter (kept []) (drop 1 (twice (ascii ''AKM''))))"
proof -
  let ?row = "sample_row ''10'' ''AKM 101'' ''Statik'' []"
  let ?r = "make_entry ?row"
  have k: "kept [] ?row" by (simp add: kept_def sample_row_cells)
  have n: "count (mset (drop 1 (twice (ascii ''AKM'')))) ?row = 2"
    by (simp add: twice_def)
  have m: "main_rows (fake_page twice True) [] 1 [ascii ''AKM''] fresh_sessions [] = Inr [?r, ?r]"
    by (simp add: fake_main_single twice_entries sort_entries_same)
  have b: "batch_of (fst (scrape_chunk (fake_page twice True) [] [ascii ''AKM'']
      (fresh_sessions 0))) = map make_entry (filter (kept []) (drop 1 (twice (ascii ''AKM''))))"
    by (simp add: fresh_sessions_def fake_chunk_ok table_entries_def)
  note D = no_deduplication [where P = "fake_page twice True" and ex = "[]" and W = 1
      and codes = "[ascii ''AKM'']" and init = fresh_sessions and order = "[]"
      and final = "[?r, ?r]" and rows = "twice (ascii ''AKM'')" and r = ?row
      and chunk = "[]" and w = "fresh 0 0 0" and entries = "[]" and w' = "fresh 0 0 0"
      and results = "[]" and e = OtherException]
  from D k have "count (mset (drop 1 (twice (ascii ''AKM'')))) ?row \<le>
      count (mset (rows_loop [] (drop 1 (twice (ascii ''AKM''))) [])) ?r"
    by blast
  then have c: "2 \<le> count (mset (rows_loop [] (drop 1 (twice (ascii ''AKM''))) [])) ?r"
    unfolding n .
  from D m
  have f: "mset [?r, ?r] =
      mset (batch_of (fst (scrape_chunk (fake_page twice True) [] [ascii ''AKM'']
        (fresh_sessions 0))))"
    by simp
  show ?thesis using k n c m f b by (intro conjI)
qed

text \<open>
  Counterexample to C10 as stated (every row of every run gives one record of the merged
  result): a worker reads a table with two kept rows and its quit raises; the parallel
  run ends with no record. And the first row of a table gives no record, whatever its
  cells.
\<close>

theorem lost_rows_counterexample:
  "length (filter (kept []) (drop 1 (twice (ascii ''AKM'')))) = 2 \<and>
   scrape_chunk (quit_raises (fake_page twice True)) [] [ascii ''AKM''] (fresh 0 0 0) =
     (Inl OtherException,
      fake_world (ascii ''AKM'') 0 0 0
        [(CreateDriver, Done), (Get, Done), (SetLevel, Done), (SelectCode (ascii ''AKM''), Done),
         (ClickShow, Done), (ReadTable, Table (twice (ascii ''AKM''))),
         (Quit, Raised OtherException)]) \<and>
   main_rows (quit_raises (fake_page twice True)) [] 2 [ascii ''AKM'', ascii ''BLG'']
     fresh_sessions [0, 1] = Inr [] \<and>
   kept [] (sample_row ''10'' ''AKM 101'' ''Statik'' []) \<and>
   rows_loop [] (drop 1 [sample_row ''10'' ''AKM 101'' ''Statik'' []]) [] = []"
proof (intro conjI)
  show "length (filter (kept []) (drop 1 (twice (ascii ''AKM'')))) = 2"
    by (rule twice_kept)
  show "scrape_chunk (quit_raises (fake_page twice True)) [] [ascii ''AKM''] (fresh 0 0 0) =
     (Inl OtherException,
      fake_world (ascii ''AKM'') 0 0 0
        [(CreateDriver, Done), (Get, Done), (SetLevel, Done), (SelectCode (ascii ''AKM''), Done),
         (ClickShow, Done), (ReadTable, Table (twice (ascii ''AKM''))),
         (Quit, Raised OtherException)])"
    by (rule fake_chunk_quit_raises)
  show "main_rows (quit_raises (fake_page twice True)) [] 2 [ascii ''AKM'', ascii ''BLG'']
     fresh_sessions [0, 1] = Inr []"
    by (rule fake_main_quit_raises)
  show "kept [] (sample_row ''10'' ''AKM 101'' ''Statik'' [])"
    by (simp add: kept_def sample_row_cells)
  show "rows_loop [] (drop 1 [sample_row ''10'' ''AKM 101'' ''Statik'' []]) [] = []"
    by simp
qed

end
